theory Spec2Isabelle
  imports Complex_Main "HOL-Library.Multiset"
begin

section \<open>Values shared by the components\<close>

text \<open>
  The exceptions of the Python source that the model tracks. A function of the source that
  can raise returns \<open>error + 'a\<close>, with \<open>Inl\<close> for the exception.
\<close>

datatype error =
    AttributeError
  | TimeoutExpired
  | OSError
  | ValueError
  | ZeroDivisionError
  | StopIteration

text \<open>
  A Python float as the program uses it: a measured, finite number of milliseconds, or the
  sentinel \<^verbatim>\<open>float('inf')\<close>. Measured times, their statistics and the improvement
  that the reporter computes from them are ideal real numbers: their rounding is not part
  of the model. The success rate is computed in doubles, see \<open>to_double\<close> below. The
  order is the one of floats, with the sentinel above every finite value.
\<close>

datatype ftime = Finite real | Infinite

instantiation ftime :: linorder
begin

fun less_eq_ftime :: "ftime \<Rightarrow> ftime \<Rightarrow> bool" where
  "less_eq_ftime (Finite a) (Finite b) = (a \<le> b)"
| "less_eq_ftime _ Infinite = True"
| "less_eq_ftime Infinite (Finite _) = False"

definition less_ftime :: "ftime \<Rightarrow> ftime \<Rightarrow> bool" where
  "less_ftime x y = (x \<le> y \<and> \<not> y \<le> x)"

instance
proof
  fix x y z :: ftime
  show "(x < y) = (x \<le> y \<and> \<not> y \<le> x)"
    by (simp add: less_ftime_def)
  show "x \<le> x"
    by (cases x) simp_all
  show "x \<le> y \<Longrightarrow> y \<le> z \<Longrightarrow> x \<le> z"
    by (cases x; cases y; cases z) simp_all
  show "x \<le> y \<Longrightarrow> y \<le> x \<Longrightarrow> x = y"
    by (cases x; cases y) simp_all
  show "x \<le> y \<or> y \<le> x"
    by (cases x; cases y) auto
qed

end

text \<open>
  The first component of the pair that \<^verbatim>\<open>query_dns\<close> returns is a bool on the dig path
  and may be a string on the nslookup path (the value of an \<^verbatim>\<open>and\<close> chain ending in
  \<^verbatim>\<open>result.stdout.strip()\<close>); callers test its truth value.
\<close>

datatype pyval = PBool bool | PStr string

fun truthy :: "pyval \<Rightarrow> bool" where
  "truthy (PBool b) = b"
| "truthy (PStr s) = (s \<noteq> [])"

section \<open>Server Benchmarker\<close>

definition test_domains :: "string list" where
  "test_domains =
    [''google.com'', ''facebook.com'', ''youtube.com'', ''amazon.com'',
     ''wikipedia.org'', ''twitter.com'', ''instagram.com'', ''linkedin.com'',
     ''github.com'', ''stackoverflow.com'', ''reddit.com'', ''netflix.com'',
     ''apple.com'', ''microsoft.com'', ''cloudflare.com'', ''baidu.com'',
     ''yahoo.com'', ''ebay.com'', ''cnn.com'', ''bbc.com'',
     ''spotify.com'', ''zoom.us'', ''adobe.com'', ''oracle.com'']"

text \<open>
  The dictionary that \<^verbatim>\<open>benchmark_server\<close> returns, one field per key.
\<close>

record server_stats =
  name :: string
  server :: string
  success_rate :: real
  successful_queries :: nat
  failed_queries :: nat
  avg_time :: ftime
  min_time :: ftime
  max_time :: ftime
  median_time :: ftime

text \<open>
  What \<^verbatim>\<open>future.result()\<close> gives for one submitted probe: the pair returned by
  \<^verbatim>\<open>query_dns\<close>, or the exception it raised.
\<close>

type_synonym future_result = "error + (pyval \<times> ftime)"

text \<open>
  The loop over \<^verbatim>\<open>as_completed(future_to_domain)\<close>. Its argument lists the futures in
  the order in which the worker pool completes them, each with its domain; the
  accumulator is the pair of the list \<^verbatim>\<open>successful_queries\<close> and the counter
  \<^verbatim>\<open>failed_queries\<close>. The equations are the branches of the loop body: the future
  raised; \<^verbatim>\<open>success and response_time != float('inf')\<close> with a finite time; an infinite
  time.
\<close>

fun collect_results :: "(string \<times> future_result) list \<Rightarrow> real list \<times> nat \<Rightarrow> real list \<times> nat" where
  "collect_results [] acc = acc"
| "collect_results ((domain, Inl e) # rest) (successful, failed) =
     collect_results rest (successful, failed + 1)"
| "collect_results ((domain, Inr (success, Finite response_time)) # rest) (successful, failed) =
    (if truthy success then collect_results rest (successful @ [response_time], failed)
     else collect_results rest (successful, failed + 1))"
| "collect_results ((domain, Inr (success, Infinite)) # rest) (successful, failed) =
     collect_results rest (successful, failed + 1)"

text \<open>
  The test \<^verbatim>\<open>success and response_time != float('inf')\<close> of the loop body on one completed
  future; a future that raised does not reach the test.
\<close>

fun probe_ok :: "string \<times> future_result \<Rightarrow> bool" where
  "probe_ok (domain, Inr (success, Finite response_time)) = truthy success"
| "probe_ok (domain, Inr (success, Infinite)) = False"
| "probe_ok (domain, Inl e) = False"

text \<open>
  \<^verbatim>\<open>statistics.mean\<close> and \<^verbatim>\<open>statistics.median\<close>, \<^verbatim>\<open>min\<close> and \<^verbatim>\<open>max\<close>, on the
  non-empty list \<open>q # qs\<close>.
\<close>

definition mean :: "real \<Rightarrow> real list \<Rightarrow> real" where
  "mean q qs = sum_list (q # qs) / real (length (q # qs))"

definition median :: "real \<Rightarrow> real list \<Rightarrow> real" where
  "median q qs =
    (let data = sort (q # qs); n = length data in
     if n mod 2 = 1 then data ! (n div 2)
     else (data ! (n div 2 - 1) + data ! (n div 2)) / 2)"

definition latency_stats :: "real list \<Rightarrow> ftime \<times> ftime \<times> ftime \<times> ftime" where
  "latency_stats successful =
    (case successful of
       [] \<Rightarrow> (Infinite, Infinite, Infinite, Infinite)
     | q # qs \<Rightarrow>
         (Finite (mean q qs), Finite (foldl min q qs), Finite (foldl max q qs),
          Finite (median q qs)))"

text \<open>
  Arithmetic on doubles. An operation of IEEE 754 binary64 returns the exact result
  rounded to the nearest double, ties to the even significand. For a real \<open>x\<close> whose
  magnitude lies in the interval from \<open>2 powi e\<close> to \<open>2 powi (e + 1)\<close> the doubles are the
  multiples of \<open>2 powi (e - 52)\<close>; \<open>binary_exponent\<close> searches \<open>e\<close> from 0, which it finds
  for every magnitude of the normal range, and \<open>round_half_even\<close> is the rounding of the
  significand. Overflow and subnormal numbers are outside the model: the quotients and
  products of the program lie between \<open>2 powi (- 5)\<close> and \<open>2 powi 7\<close>.
\<close>

fun binary_exponent :: "nat \<Rightarrow> real \<Rightarrow> int \<Rightarrow> int" where
  "binary_exponent fuel x e =
    (if fuel = 0 then e
     else if x < 2 powi e then binary_exponent (fuel - 1) x (e - 1)
     else if 2 powi (e + 1) \<le> x then binary_exponent (fuel - 1) x (e + 1)
     else e)"

declare binary_exponent.simps [simp del]

definition round_half_even :: "real \<Rightarrow> int" where
  "round_half_even y =
    (let f = \<lfloor>y\<rfloor> in
     if y - of_int f < 1 / 2 then f
     else if 1 / 2 < y - of_int f then f + 1
     else if even f then f else f + 1)"

definition to_double :: "real \<Rightarrow> real" where
  "to_double x =
    (if x = 0 then 0
     else (let e = binary_exponent 1100 \<bar>x\<bar> 0 in
           sgn x * of_int (round_half_even (\<bar>x\<bar> / 2 powi (e - 52))) * 2 powi (e - 52)))"

text \<open>
  \<^verbatim>\<open>benchmark_server\<close> after the pool has completed. The rate is
  \<^verbatim>\<open>(len(successful_queries) / total_queries) * 100\<close>: the division of two integers gives
  the double nearest to the quotient, and the product with 100 is rounded again.
\<close>

definition benchmark_server :: "(string \<times> future_result) list \<Rightarrow> string \<Rightarrow> string option \<Rightarrow> server_stats" where
  "benchmark_server completed dns_server name_arg =
    (let nm = (case name_arg of None \<Rightarrow> dns_server | Some n \<Rightarrow> n);
         (successful, failed) = collect_results completed ([], 0);
         total_queries = length test_domains;
         (avg, mn, mx, med) = latency_stats successful
     in \<lparr> name = nm,
          server = dns_server,
          success_rate = to_double (to_double (real (length successful) / real total_queries) * 100),
          successful_queries = length successful,
          failed_queries = failed,
          avg_time = avg,
          min_time = mn,
          max_time = mx,
          median_time = med \<rparr>)"

section \<open>Strings\<close>

text \<open>
  A \<open>string\<close> stands for a Python \<^verbatim>\<open>str\<close> whose code points are below 256, one
  \<open>char\<close> per code point. The functions below are the methods of \<^verbatim>\<open>str\<close> that the
  program calls.
\<close>

text \<open>\<^verbatim>\<open>s.startswith(p)\<close>.\<close>

definition startswith :: "string \<Rightarrow> string \<Rightarrow> bool" where
  "startswith s p = (take (length p) s = p)"

text \<open>\<^verbatim>\<open>sub in s\<close>.\<close>

fun contains :: "string \<Rightarrow> string \<Rightarrow> bool" where
  "contains [] sub = (sub = [])"
| "contains (c # cs) sub = (startswith (c # cs) sub \<or> contains cs sub)"

text \<open>
  The white space of \<^verbatim>\<open>str.strip()\<close>, \<^verbatim>\<open>str.split()\<close> and \<^verbatim>\<open>int()\<close> among the code
  points below 256: tab, line feed, vertical tab, form feed, carriage return, the four
  separators 28 to 31, space, next line (133) and no-break space (160).
\<close>

definition is_space :: "char \<Rightarrow> bool" where
  "is_space c = (of_char c \<in> {9, 10, 11, 12, 13, 28, 29, 30, 31, 32, 133, 160 :: nat})"

text \<open>\<^verbatim>\<open>s.strip()\<close>.\<close>

definition strip :: "string \<Rightarrow> string" where
  "strip s = rev (dropWhile is_space (rev (dropWhile is_space s)))"

text \<open>
  \<^verbatim>\<open>s.split()\<close>: the maximal runs of characters that are not white space. The first
  argument is the run read so far.
\<close>

fun split_ws_from :: "string \<Rightarrow> string \<Rightarrow> string list" where
  "split_ws_from cur [] = (if cur = [] then [] else [cur])"
| "split_ws_from cur (c # cs) =
    (if is_space c then (if cur = [] then split_ws_from [] cs else cur # split_ws_from [] cs)
     else split_ws_from (cur @ [c]) cs)"

definition split_ws :: "string \<Rightarrow> string list" where
  "split_ws s = split_ws_from [] s"

text \<open>
  \<^verbatim>\<open>s.split(sep)\<close> for a separator of one character: the pieces between the separators,
  empty pieces included. The second argument is the piece read so far.
\<close>

fun split_on_from :: "char \<Rightarrow> string \<Rightarrow> string \<Rightarrow> string list" where
  "split_on_from sep cur [] = [cur]"
| "split_on_from sep cur (c # cs) =
    (if c = sep then cur # split_on_from sep [] cs else split_on_from sep (cur @ [c]) cs)"

definition split_on :: "char \<Rightarrow> string \<Rightarrow> string list" where
  "split_on sep s = split_on_from sep [] s"

text \<open>
  \<^verbatim>\<open>s.split(sep, 1)[1]\<close> under the test \<^verbatim>\<open>sep in s\<close>: \<open>None\<close> when the separator does
  not occur in \<open>s\<close>, and otherwise the text after its first occurrence.
\<close>

definition after_first :: "char \<Rightarrow> string \<Rightarrow> string option" where
  "after_first sep s =
    (case dropWhile (\<lambda>c. c \<noteq> sep) s of [] \<Rightarrow> None | _ # rest \<Rightarrow> Some rest)"

section \<open>Lookup Probe\<close>

text \<open>
  \<^verbatim>\<open>subprocess.run(argv, capture_output=True, text=True, timeout=...)\<close> either raises
  (\<^verbatim>\<open>TimeoutExpired\<close>, or an \<^verbatim>\<open>OSError\<close> when the program cannot be started) or
  completes with a return code and the captured standard output.
\<close>

datatype proc_run = Raises error | Completes int string

text \<open>
  What a probe reads from outside: the attribute \<^verbatim>\<open>self.dig_available\<close> (\<open>None\<close> while
  \<^verbatim>\<open>run_benchmark\<close> has not set it), the flag \<^verbatim>\<open>self.verbose\<close>, the behaviour of
  \<^verbatim>\<open>subprocess.run\<close> on a command line, and the two readings of \<^verbatim>\<open>time.time()\<close>.
\<close>

record probe_env =
  dig_available :: "bool option"
  run_command :: "string list \<Rightarrow> proc_run"
  start_time :: real
  end_time :: real

text \<open>The body of the \<^verbatim>\<open>try\<close> block of \<^verbatim>\<open>query_dns\<close>.\<close>

definition query_dns_try :: "probe_env \<Rightarrow> string \<Rightarrow> string \<Rightarrow> error + (pyval \<times> ftime)" where
  "query_dns_try env domain dns_server =
    (case dig_available env of
       None \<Rightarrow> Inl AttributeError
     | Some dig \<Rightarrow>
        (case run_command env
                (if dig then [''dig'', ''+short'', ''+time=2'', ''+tries=1'', ''@'' @ dns_server, domain]
                 else [''nslookup'', ''-timeout=2'', domain, dns_server]) of
           Raises e \<Rightarrow> Inl e
         | Completes returncode out \<Rightarrow>
            (let response_time = (end_time env - start_time env) * 1000 in
             if returncode = 0 then
               (let success =
                   (if dig then PBool (strip out \<noteq> [])
                    else if contains out ''NXDOMAIN'' then PBool False
                    else if contains out (''can'' @ [CHR 0x27] @ ''t find'') then PBool False
                    else PStr (strip out))
                in Inr (success, if truthy success then Finite response_time else Infinite))
             else Inr (PBool False, Infinite))))"

text \<open>
  \<^verbatim>\<open>query_dns\<close>: the two \<^verbatim>\<open>except\<close> clauses turn \<^verbatim>\<open>TimeoutExpired\<close> and every other
  \<^verbatim>\<open>Exception\<close> into the pair \<^verbatim>\<open>(False, float('inf'))\<close>.
\<close>

definition query_dns :: "probe_env \<Rightarrow> string \<Rightarrow> string \<Rightarrow> error + (pyval \<times> ftime)" where
  "query_dns env domain dns_server =
    (case query_dns_try env domain dns_server of
       Inl TimeoutExpired \<Rightarrow> Inr (PBool False, Infinite)
     | Inl e \<Rightarrow> Inr (PBool False, Infinite)
     | Inr r \<Rightarrow> Inr r)"

section \<open>Result Reporter\<close>

text \<open>
  What \<^verbatim>\<open>print_results\<close> prints: one constructor for each \<^verbatim>\<open>print\<close> statement, with the
  values that the statement formats. The layout of a line (padding, one decimal) is not
  part of the model.
\<close>

datatype out_line =
    JsonDump "server_stats list"
  | RuleTop
  | Title
  | RuleBottom
  | TableHeader
  | TableRule
  | TableRow nat server_stats
  | FailedHeader
  | FailedRow server_stats
  | BestHeader
  | BestServer server_stats
  | BestSummary server_stats
  | CurrentRank nat
  | Switching server_stats real
  | AlreadyFastest

text \<open>
  The two list comprehensions on \<^verbatim>\<open>avg_time\<close>, and the list \<^verbatim>\<open>valid_results\<close> after
  \<^verbatim>\<open>valid_results.sort(key=lambda x: x['avg_time'])\<close>. Python's \<^verbatim>\<open>list.sort\<close> is a
  stable sort; \<^const>\<open>sort_key\<close> is the stable insertion sort of the library, and two
  stable sorts of one list by one key give the same list.
\<close>

definition valid_unsorted :: "server_stats list \<Rightarrow> server_stats list" where
  "valid_unsorted results = [r \<leftarrow> results. avg_time r \<noteq> Infinite]"

definition failed_results :: "server_stats list \<Rightarrow> server_stats list" where
  "failed_results results = [r \<leftarrow> results. avg_time r = Infinite]"

definition valid_results :: "server_stats list \<Rightarrow> server_stats list" where
  "valid_results results = sort_key avg_time (valid_unsorted results)"

definition is_current :: "server_stats \<Rightarrow> bool" where
  "is_current r = startswith (name r) ''Current-''"

text \<open>
  \<^verbatim>\<open>next(i for i, r in enumerate(valid_results, 1) if r == current_best)\<close>, on the
  enumerated list.
\<close>

fun first_rank :: "server_stats \<Rightarrow> (nat \<times> server_stats) list \<Rightarrow> error + nat" where
  "first_rank current_best [] = Inl StopIteration"
| "first_rank current_best ((i, r) # rest) =
    (if r = current_best then Inr i else first_rank current_best rest)"

text \<open>
  \<^verbatim>\<open>((current_best['avg_time'] - best['avg_time']) / current_best['avg_time']) * 100\<close>.
  Float division by zero raises. Both operands are averages of valid results, which
  are finite; the other cases get an error value, so that nothing can be drawn from them.
\<close>

definition improvement_pct :: "ftime \<Rightarrow> ftime \<Rightarrow> error + real" where
  "improvement_pct current_avg best_avg =
    (case (current_avg, best_avg) of
       (Finite c, Finite b) \<Rightarrow>
          if c = 0 then Inl ZeroDivisionError else Inr (((c - b) / c) * 100)
     | _ \<Rightarrow> Inl ValueError)"

text \<open>
  The block under \<^verbatim>\<open># Compare with current DNS\<close>. The result is what was printed and
  the exception that ended the block, if any.
\<close>

definition compare_with_current :: "server_stats \<Rightarrow> server_stats list \<Rightarrow> out_line list \<times> error option" where
  "compare_with_current best others =
    (let ranked = best # others;
         current_results = [r \<leftarrow> ranked. is_current r]
     in case current_results of
          [] \<Rightarrow> ([], None)
        | current_best # _ \<Rightarrow>
           if length ranked > 1 then
             (case first_rank current_best (enumerate 1 ranked) of
                Inl e \<Rightarrow> ([], Some e)
              | Inr current_rank \<Rightarrow>
                 if current_rank > 1 then
                   (case improvement_pct (avg_time current_best) (avg_time best) of
                      Inl e \<Rightarrow> ([], Some e)
                    | Inr improvement \<Rightarrow>
                        ([CurrentRank current_rank, Switching best improvement], None))
                 else ([AlreadyFastest], None))
           else ([], None))"

text \<open>The lines printed before the comparison with the current servers.\<close>

definition report_head :: "server_stats list \<Rightarrow> out_line list" where
  "report_head results =
    (let ranked = valid_results results; failed = failed_results results in
     [RuleTop, Title, RuleBottom]
     @ (if ranked \<noteq> [] then
          [TableHeader, TableRule] @ map (\<lambda>(i, r). TableRow i r) (enumerate 1 ranked)
        else [])
     @ (if failed \<noteq> [] then FailedHeader # map FailedRow failed else [])
     @ (case ranked of [] \<Rightarrow> [] | best # _ \<Rightarrow> [BestHeader, BestServer best, BestSummary best]))"

definition print_results :: "server_stats list \<Rightarrow> bool \<Rightarrow> out_line list \<times> error option" where
  "print_results results json_output =
    (if results = [] then ([], None)
     else if json_output then ([JsonDump results], None)
     else
       (case valid_results results of
          [] \<Rightarrow> (report_head results, None)
        | best # others \<Rightarrow>
            (let (lines, err) = compare_with_current best others
             in (report_head results @ lines, err))))"

text \<open>The rows of the ranked table among the printed lines, in order.\<close>

fun table_rows :: "out_line list \<Rightarrow> (nat \<times> server_stats) list" where
  "table_rows [] = []"
| "table_rows (TableRow i r # rest) = (i, r) # table_rows rest"
| "table_rows (_ # rest) = table_rows rest"

section \<open>Concrete inputs\<close>

text \<open>
  A run of the pool in which the futures complete in the reverse order of submission,
  one probe raises, one fails and the others answer in 12 ms.
\<close>

definition mixed_run :: "(string \<times> future_result) list" where
  "mixed_run = map (\<lambda>d. (d, if d = ''zoom.us'' then Inl OSError
                             else if d = ''cnn.com'' then Inr (PBool False, Infinite)
                             else Inr (PBool True, Finite 12))) (rev test_domains)"

text \<open>A run in which three probes fail and the others answer in 12 ms.\<close>

definition three_failed_run :: "(string \<times> future_result) list" where
  "three_failed_run = map (\<lambda>d. (d, if d = ''zoom.us'' \<or> d = ''cnn.com'' \<or> d = ''bbc.com''
                                    then Inr (PBool False, Infinite)
                                    else Inr (PBool True, Finite 12))) test_domains"

text \<open>A run in which every probe fails.\<close>

definition all_failed_run :: "(string \<times> future_result) list" where
  "all_failed_run = map (\<lambda>d. (d, Inr (PBool False, Infinite))) test_domains"

text \<open>
  Results for the reporter: a result with a given label and average, and a list of
  results with a failed server and two servers of equal average.
\<close>

definition stat :: "string \<Rightarrow> ftime \<Rightarrow> server_stats" where
  "stat nm avg = \<lparr> name = nm, server = ''192.0.2.1'', success_rate = 100,
      successful_queries = 24, failed_queries = 0,
      avg_time = avg, min_time = avg, max_time = avg, median_time = avg \<rparr>"

definition ranking_example :: "server_stats list" where
  "ranking_example = [stat ''A'' (Finite 50), stat ''B'' (Finite 10), stat ''C'' Infinite,
      stat ''D'' (Finite 30), stat ''E'' (Finite 10)]"

text \<open>
  The success criteria of a probe in the words of the specification: the external call
  completed without a timeout, an error or a non-zero status, the response is not empty
  and, for the fallback mechanism, it has no indicator of a name that was not found.
\<close>

definition lookup_succeeded :: "probe_env \<Rightarrow> string \<Rightarrow> string \<Rightarrow> bool" where
  "lookup_succeeded env domain dns_server =
    (case dig_available env of
       None \<Rightarrow> False
     | Some True \<Rightarrow>
        (case run_command env [''dig'', ''+short'', ''+time=2'', ''+tries=1'', ''@'' @ dns_server, domain] of
           Raises e \<Rightarrow> False
         | Completes returncode out \<Rightarrow> returncode = 0 \<and> strip out \<noteq> [])
     | Some False \<Rightarrow>
        (case run_command env [''nslookup'', ''-timeout=2'', domain, dns_server] of
           Raises e \<Rightarrow> False
         | Completes returncode out \<Rightarrow>
             returncode = 0 \<and> strip out \<noteq> [] \<and> \<not> contains out ''NXDOMAIN''
             \<and> \<not> contains out (''can'' @ [CHR 0x27] @ ''t find'')))"

text \<open>A host with dig, on which every command behaves as \<open>r\<close> and takes 20 ms.\<close>

definition dig_env :: "proc_run \<Rightarrow> probe_env" where
  "dig_env r = \<lparr> dig_available = Some True, run_command = (\<lambda>argv. r),
                 start_time = 100, end_time = 100.02 \<rparr>"

text \<open>
  Results for the comparison with the current servers: a current server that is the only
  valid result, one that is slower than a public server, and one that is the fastest.
\<close>

definition lone_current :: "server_stats list" where
  "lone_current = [stat ''Current-192.168.1.1'' (Finite 20), stat ''Google'' Infinite]"

definition slow_current :: "server_stats list" where
  "slow_current = [stat ''Current-192.168.1.1'' (Finite 100), stat ''Cloudflare'' (Finite 50)]"

definition fast_current :: "server_stats list" where
  "fast_current = [stat ''Cloudflare'' (Finite 50), stat ''Current-192.168.1.1'' (Finite 20)]"

section \<open>Address Validator\<close>

text \<open>
  The two patterns of \<^verbatim>\<open>validate_ip_address\<close> are built from character classes,
  concatenation and bounded repetition. \<open>Cls cs\<close> is one character of \<open>cs\<close>, \<open>Eps\<close> the
  empty string, \<open>Seq\<close> a concatenation and \<open>Alt\<close> a choice.
\<close>

datatype regex = Eps | Cls string | Seq regex regex | Alt regex regex

text \<open>
  \<open>rep m n r\<close> is the bounded repetition \<^verbatim>\<open>r{m,n}\<close>: between \<open>m\<close> and \<open>n\<close> copies of \<open>r\<close>.
\<close>

fun rep :: "nat \<Rightarrow> nat \<Rightarrow> regex \<Rightarrow> regex" where
  "rep 0 0 r = Eps"
| "rep 0 (Suc n) r = Alt Eps (Seq r (rep 0 n r))"
| "rep (Suc m) (Suc n) r = Seq r (rep m n r)"
| "rep (Suc m) 0 r = Cls []"

text \<open>All the ways to cut a string in two.\<close>

fun splits :: "string \<Rightarrow> (string \<times> string) list" where
  "splits [] = [([], [])]"
| "splits (c # cs) = ([], c # cs) # map (\<lambda>(u, v). (c # u, v)) (splits cs)"

text \<open>
  \<open>matches r s\<close>: the whole of \<open>s\<close> is a word of \<open>r\<close>. A backtracking matcher finds a
  match of an anchored pattern exactly when there is one, whatever it tries first.
\<close>

fun matches :: "regex \<Rightarrow> string \<Rightarrow> bool" where
  "matches Eps s = (s = [])"
| "matches (Cls cs) s = (case s of [c] \<Rightarrow> c \<in> set cs | _ \<Rightarrow> False)"
| "matches (Seq r1 r2) s = list_ex (\<lambda>(u, v). if matches r1 u then matches r2 v else False) (splits s)"
| "matches (Alt r1 r2) s = (if matches r1 s then True else matches r2 s)"

text \<open>
  \<^verbatim>\<open>re.match('^...$', s)\<close> succeeds: \<^verbatim>\<open>$\<close> matches at the end of the string and also
  just before a line feed that ends the string.
\<close>

definition re_match :: "regex \<Rightarrow> string \<Rightarrow> bool" where
  "re_match r s = (if matches r s then True
                   else s \<noteq> [] \<and> last s = CHR 0x0A \<and> matches r (butlast s))"

text \<open>
  \<^verbatim>\<open>\d\<close> and \<^verbatim>\<open>[0-9a-fA-F]\<close>; among the code points below 256 the decimal digits are
  \<^verbatim>\<open>0\<close> to \<^verbatim>\<open>9\<close>.
\<close>

definition digit_chars :: string where
  "digit_chars = ''0123456789''"

definition hex_chars :: string where
  "hex_chars = ''0123456789abcdefABCDEF''"

definition digit :: regex where
  "digit = Cls digit_chars"

definition hexdigit :: regex where
  "hexdigit = Cls hex_chars"

text \<open>
  \<^verbatim>\<open>(\d{1,3}\.){3}\d{1,3}\<close> and \<^verbatim>\<open>([0-9a-fA-F]{0,4}:){2,7}[0-9a-fA-F]{0,4}\<close>.
\<close>

definition ipv4_pattern :: regex where
  "ipv4_pattern = Seq (rep 3 3 (Seq (rep 1 3 digit) (Cls ''.''))) (rep 1 3 digit)"

definition ipv6_pattern :: regex where
  "ipv6_pattern = Seq (rep 2 7 (Seq (rep 0 4 hexdigit) (Cls '':''))) (rep 0 4 hexdigit)"

text \<open>
  \<^verbatim>\<open>int(part)\<close>: white space around the digits is dropped, and a string that is then not
  a non-empty run of digits raises \<^verbatim>\<open>ValueError\<close>. Python also accepts a sign and
  underscores between digits; no part of a string that matched \<^verbatim>\<open>ipv4_pattern\<close> has
  either, and the model raises on them.
\<close>

definition is_digit :: "char \<Rightarrow> bool" where
  "is_digit c = (c \<in> set digit_chars)"

definition digit_value :: "char \<Rightarrow> int" where
  "digit_value c = int (of_char c) - 48"

definition decimal :: "string \<Rightarrow> int" where
  "decimal s = foldl (\<lambda>a c. 10 * a + digit_value c) 0 s"

definition py_int :: "string \<Rightarrow> error + int" where
  "py_int s =
    (let t = strip s in
     if t \<noteq> [] \<and> list_all is_digit t then Inr (decimal t) else Inl ValueError)"

text \<open>
  \<^verbatim>\<open>all(0 <= int(part) <= 255 for part in parts)\<close>: the parts are read in order, the first
  part out of range ends the loop with \<^verbatim>\<open>False\<close>, and an exception of \<^verbatim>\<open>int\<close> goes
  through.
\<close>

fun all_octets :: "string list \<Rightarrow> error + bool" where
  "all_octets [] = Inr True"
| "all_octets (part # parts) =
    (case py_int part of
       Inl e \<Rightarrow> Inl e
     | Inr v \<Rightarrow> if 0 \<le> v \<and> v \<le> 255 then all_octets parts else Inr False)"

definition validate_ip_address :: "string \<Rightarrow> error + bool" where
  "validate_ip_address ip =
    (if re_match ipv4_pattern ip then all_octets (split_on CHR ''.'' ip)
     else if re_match ipv6_pattern ip then Inr True
     else Inr False)"

text \<open>The string without the line feed that may end it.\<close>

definition chomp :: "string \<Rightarrow> string" where
  "chomp s = (if s \<noteq> [] \<and> last s = CHR 0x0A then butlast s else s)"

text \<open>
  The specification's groups: a group of one to three digits, and a string of exactly four
  such groups, separated by dots, with values up to 255.
\<close>

definition octet_group :: "string \<Rightarrow> bool" where
  "octet_group g = (g \<noteq> [] \<and> length g \<le> 3 \<and> list_all is_digit g)"

definition ipv4_ok :: "string \<Rightarrow> bool" where
  "ipv4_ok t =
    (length (split_on CHR ''.'' t) = 4
     \<and> list_all (\<lambda>g. octet_group g \<and> decimal g \<le> 255) (split_on CHR ''.'' t))"

text \<open>\<^verbatim>\<open>sep.join(ws)\<close>, the inverse of \<^verbatim>\<open>split\<close>.\<close>

fun join :: "char \<Rightarrow> string list \<Rightarrow> string" where
  "join sep [] = []"
| "join sep [w] = w"
| "join sep (w # w' # ws) = w @ sep # join sep (w' # ws)"

text \<open>The characters that can occur in a word of a pattern.\<close>

fun chars_of :: "regex \<Rightarrow> char set" where
  "chars_of Eps = {}"
| "chars_of (Cls cs) = set cs"
| "chars_of (Seq r1 r2) = chars_of r1 \<union> chars_of r2"
| "chars_of (Alt r1 r2) = chars_of r1 \<union> chars_of r2"

section \<open>Resolver Discovery\<close>

text \<open>
  The state of \<^verbatim>\<open>get_current_dns_servers\<close>: the list \<^verbatim>\<open>dns_servers\<close> and the set
  \<^verbatim>\<open>seen_servers\<close>. A step of the function returns the exception it raised, if any,
  and the state it left: the two variables are updated in place, so what was added before
  an exception stays.
\<close>

type_synonym discovery = "string list \<times> string set"

text \<open>
  The block that all three methods apply to a candidate:
  \<^verbatim>\<open>if self.validate_ip_address(server) and not server.startswith('127.'):\<close>
  \<^verbatim>\<open>if server not in seen_servers:\<close> append and add.
\<close>

definition consider_server :: "string \<Rightarrow> discovery \<Rightarrow> error option \<times> discovery" where
  "consider_server server' st =
    (case validate_ip_address server' of
       Inl e \<Rightarrow> (Some e, st)
     | Inr valid \<Rightarrow>
         (None,
          if valid \<and> \<not> startswith server' ''127.'' then
            (if server' \<notin> snd st then (fst st @ [server'], insert server' (snd st)) else st)
          else st))"

text \<open>A \<^verbatim>\<open>for\<close> loop whose body may raise: the first exception ends it.\<close>

fun for_each :: "('a \<Rightarrow> discovery \<Rightarrow> error option \<times> discovery) \<Rightarrow> 'a list \<Rightarrow> discovery
    \<Rightarrow> error option \<times> discovery" where
  "for_each body [] st = (None, st)"
| "for_each body (x # xs) st =
    (let r = body x st in if fst r = None then for_each body xs (snd r) else r)"

text \<open>Method 1: the body of the loop over the lines of \<^verbatim>\<open>/etc/resolv.conf\<close>.\<close>

definition resolv_conf_line :: "string \<Rightarrow> discovery \<Rightarrow> error option \<times> discovery" where
  "resolv_conf_line line st =
    (if startswith (strip line) ''nameserver'' then
       (let parts = split_ws (strip line) in
        if length parts \<ge> 2 then consider_server (parts ! 1) st else (None, st))
     else (None, st))"

text \<open>
  Method 2: the loop over the lines \<^verbatim>\<open>i + 1\<close> to \<^verbatim>\<open>i + 9\<close> after a line with the marker.
  A line with \<^verbatim>\<open>:\<close> or \<^verbatim>\<open>=\<close> ends the loop (\<^verbatim>\<open>break\<close>); an empty line, or a line with
  \<^verbatim>\<open>Domain\<close> only, is passed over.
\<close>

fun scan_following :: "string list \<Rightarrow> discovery \<Rightarrow> error option \<times> discovery" where
  "scan_following [] st = (None, st)"
| "scan_following (l # rest) st =
    (let next_line = strip l in
     if next_line \<noteq> [] \<and> \<not> (contains next_line '':'' \<or> contains next_line ''=''
                                \<or> contains next_line ''Domain'') then
       (let r = for_each consider_server (split_ws next_line) st in
        if fst r = None then scan_following rest (snd r) else r)
     else if contains next_line '':'' \<or> contains next_line ''='' then (None, st)
     else scan_following rest st)"

text \<open>
  Method 2: the loop \<^verbatim>\<open>for i, line in enumerate(lines)\<close>; the argument is \<^verbatim>\<open>lines[i:]\<close>.
  \<^const>\<open>after_first\<close> is \<open>None\<close> when the test \<^verbatim>\<open>':' in line\<close> fails.
\<close>

fun scan_status :: "string list \<Rightarrow> discovery \<Rightarrow> error option \<times> discovery" where
  "scan_status [] st = (None, st)"
| "scan_status (line # rest) st =
    (if contains line ''DNS Servers:'' \<or> contains line ''DNS Server:'' then
       (let r1 = (case after_first CHR '':'' line of
                    None \<Rightarrow> (None, st)
                  | Some server_part \<Rightarrow> for_each consider_server (split_ws (strip server_part)) st)
        in if fst r1 = None then
             (let r2 = scan_following (take 9 rest) (snd r1) in
              if fst r2 = None then scan_status rest (snd r2) else r2)
           else r1)
     else scan_status rest st)"

text \<open>
  One command of method 2, with its \<^verbatim>\<open>try\<close>: an exception of \<^verbatim>\<open>subprocess.run\<close> or of
  the scan is caught, and the state is what the scan left.
\<close>

definition status_source :: "proc_run \<Rightarrow> discovery \<Rightarrow> discovery" where
  "status_source run st =
    (case run of
       Raises e \<Rightarrow> st
     | Completes returncode out \<Rightarrow>
         if returncode = 0 then snd (scan_status (split_on CHR 0x0A out) st) else st)"

text \<open>Method 3: the body of the loop over the lines that \<^verbatim>\<open>nmcli dev show\<close> prints.\<close>

definition nmcli_line :: "string \<Rightarrow> discovery \<Rightarrow> error option \<times> discovery" where
  "nmcli_line line st =
    (if contains line ''IP4.DNS'' \<or> contains line ''IP6.DNS'' then
       (case after_first CHR '':'' line of
          None \<Rightarrow> (None, st)
        | Some server' \<Rightarrow> consider_server (strip server') st)
     else (None, st))"

definition nmcli_source :: "proc_run \<Rightarrow> discovery \<Rightarrow> discovery" where
  "nmcli_source run st =
    (case run of
       Raises e \<Rightarrow> st
     | Completes returncode out \<Rightarrow>
         if returncode = 0 then snd (for_each nmcli_line (split_on CHR 0x0A out) st) else st)"

text \<open>
  What discovery reads: the lines of \<^verbatim>\<open>/etc/resolv.conf\<close> (\<open>None\<close> when the file cannot be
  opened; a read error in the middle of the file leaves the lines read before it), and
  the runs of \<^verbatim>\<open>systemd-resolve --status\<close>, \<^verbatim>\<open>resolvectl status\<close> and
  \<^verbatim>\<open>nmcli dev show\<close>.
\<close>

record sources =
  resolv_conf :: "string list option"
  systemd_resolve :: proc_run
  resolvectl :: proc_run
  nmcli :: proc_run

definition get_current_dns_servers :: "sources \<Rightarrow> string list" where
  "get_current_dns_servers src =
    (let st0 = ([], {});
         st1 = (case resolv_conf src of
                  None \<Rightarrow> st0
                | Some lines \<Rightarrow> snd (for_each resolv_conf_line lines st0));
         st2 = status_source (systemd_resolve src) st1;
         st3 = status_source (resolvectl src) st2;
         st4 = nmcli_source (nmcli src) st3
     in fst st4)"

text \<open>
  The specification's view of discovery. A candidate is accepted when it passes the
  validator and does not start with \<^verbatim>\<open>127.\<close>; the candidates of a source are the tokens
  that its lines yield, in order; the result keeps the first occurrence of each accepted
  candidate.
\<close>

definition accepted :: "string \<Rightarrow> bool" where
  "accepted s = (validate_ip_address s = Inr True \<and> \<not> startswith s ''127.'')"

definition add_server :: "string \<Rightarrow> discovery \<Rightarrow> discovery" where
  "add_server s st =
    (if accepted s \<and> s \<notin> snd st then (fst st @ [s], insert s (snd st)) else st)"

definition insert_new :: "string \<Rightarrow> string list \<Rightarrow> string list" where
  "insert_new s acc = (if s \<in> set acc then acc else acc @ [s])"

definition first_occurrences :: "string list \<Rightarrow> string list" where
  "first_occurrences toks = fold insert_new toks []"

definition resolv_conf_tokens :: "string \<Rightarrow> string list" where
  "resolv_conf_tokens line =
    (if startswith (strip line) ''nameserver'' \<and> length (split_ws (strip line)) \<ge> 2
     then [split_ws (strip line) ! 1] else [])"

fun following_tokens :: "string list \<Rightarrow> string list" where
  "following_tokens [] = []"
| "following_tokens (l # rest) =
    (if strip l \<noteq> [] \<and> \<not> (contains (strip l) '':'' \<or> contains (strip l) ''=''
                               \<or> contains (strip l) ''Domain'') then
       split_ws (strip l) @ following_tokens rest
     else if contains (strip l) '':'' \<or> contains (strip l) ''='' then []
     else following_tokens rest)"

fun status_tokens :: "string list \<Rightarrow> string list" where
  "status_tokens [] = []"
| "status_tokens (line # rest) =
    (if contains line ''DNS Servers:'' \<or> contains line ''DNS Server:'' then
       (case after_first CHR '':'' line of
          None \<Rightarrow> []
        | Some server_part \<Rightarrow> split_ws (strip server_part))
       @ following_tokens (take 9 rest) @ status_tokens rest
     else status_tokens rest)"

definition nmcli_tokens :: "string \<Rightarrow> string list" where
  "nmcli_tokens line =
    (if contains line ''IP4.DNS'' \<or> contains line ''IP6.DNS'' then
       (case after_first CHR '':'' line of None \<Rightarrow> [] | Some s \<Rightarrow> [strip s])
     else [])"

definition command_tokens :: "(string list \<Rightarrow> string list) \<Rightarrow> proc_run \<Rightarrow> string list" where
  "command_tokens toks run =
    (case run of
       Raises e \<Rightarrow> []
     | Completes returncode out \<Rightarrow> if returncode = 0 then toks (split_on CHR 0x0A out) else [])"

definition discovered_tokens :: "sources \<Rightarrow> string list" where
  "discovered_tokens src =
     (case resolv_conf src of None \<Rightarrow> [] | Some lines \<Rightarrow> concat (map resolv_conf_tokens lines))
     @ command_tokens status_tokens (systemd_resolve src)
     @ command_tokens status_tokens (resolvectl src)
     @ command_tokens (\<lambda>lines. concat (map nmcli_tokens lines)) (nmcli src)"

text \<open>
  An IPv4 address in 127.0.0.0/8: four groups that the validator accepts, the first of
  value 127.
\<close>

definition in_loopback_net :: "string \<Rightarrow> bool" where
  "in_loopback_net s = (ipv4_ok s \<and> decimal (hd (split_on CHR ''.'' s)) = 127)"

text \<open>
  Hosts for discovery: the example of the specification, a host whose three sources all
  answer, and a host whose resolver configuration names the IPv6 loopback.
\<close>

definition spec_example :: sources where
  "spec_example =
    \<lparr> resolv_conf = Some [''nameserver 1.1.1.1\<newline>'', ''nameserver 1.1.1.1\<newline>'',
                           ''nameserver 127.0.0.53\<newline>''],
      systemd_resolve = Raises OSError, resolvectl = Raises OSError, nmcli = Raises OSError \<rparr>"

definition three_sources :: sources where
  "three_sources =
    \<lparr> resolv_conf = Some [''# stub\<newline>'', ''nameserver 127.0.0.53\<newline>''],
      systemd_resolve = Raises OSError,
      resolvectl = Completes 0 ''Link 2 (eth0)\<newline>  DNS Servers: 10.0.0.1\<newline>    9.9.9.9\<newline>  DNS Domain: lan'',
      nmcli = Completes 0 ''IP4.DNS[1]:   10.0.0.1\<newline>IP4.DNS[2]:   1.1.1.1'' \<rparr>"

definition ipv6_loopback_conf :: sources where
  "ipv6_loopback_conf =
    \<lparr> resolv_conf = Some [''nameserver ::1\<newline>''],
      systemd_resolve = Raises OSError, resolvectl = Raises OSError, nmcli = Raises OSError \<rparr>"

section \<open>Orchestrator\<close>

text \<open>
  The dictionaries \<^verbatim>\<open>public_dns_servers\<close> and \<^verbatim>\<open>top3_dns_servers\<close> of the constructor, as
  the list of pairs that \<^verbatim>\<open>items()\<close> gives: a dictionary keeps the order of insertion.
\<close>

definition public_dns_servers :: "(string \<times> string) list" where
  "public_dns_servers =
    [(''Cloudflare'', ''1.1.1.1''), (''Cloudflare-2'', ''1.0.0.1''),
     (''Google'', ''8.8.8.8''), (''Google-2'', ''8.8.4.4''),
     (''Quad9'', ''9.9.9.9''), (''Quad9-2'', ''149.112.112.112''),
     (''OpenDNS'', ''208.67.222.222''), (''OpenDNS-2'', ''208.67.220.220''),
     (''Level3'', ''4.2.2.1''), (''Level3-2'', ''4.2.2.2'')]"

definition top3_dns_servers :: "(string \<times> string) list" where
  "top3_dns_servers =
    [(''Cloudflare'', ''1.1.1.1''), (''Google'', ''8.8.8.8''), (''Quad9'', ''9.9.9.9'')]"

text \<open>
  What happens when \<^verbatim>\<open>run_benchmark\<close> calls \<^verbatim>\<open>benchmark_server\<close> for a server: the pool
  completes its futures and the statistics are returned, or the user interrupts the
  program, or another exception leaves the call.
\<close>

datatype attempt =
    Completed "(string \<times> future_result) list"
  | KeyboardInterrupt
  | Raised error

text \<open>
  The host of a run: the flag \<^verbatim>\<open>self.verbose\<close>, the behaviour of
  \<^verbatim>\<open>subprocess.run(['which', command], capture_output=True, check=True)\<close> for a command,
  what discovery reads, and what happens when a server, given with its label, is
  benchmarked.
\<close>

record host =
  verbose :: bool
  which :: "string \<Rightarrow> proc_run"
  resolvers :: sources
  attempts :: "string \<Rightarrow> string \<Rightarrow> attempt"

text \<open>
  \<^verbatim>\<open>check_command\<close>: with \<^verbatim>\<open>check=True\<close> a return code other than 0 raises, and every
  exception is caught by the bare \<^verbatim>\<open>except\<close>.
\<close>

definition check_command :: "host \<Rightarrow> string \<Rightarrow> bool" where
  "check_command h command =
    (case which h command of
       Raises e \<Rightarrow> False
     | Completes returncode out \<Rightarrow> returncode = 0)"

text \<open>
  The trace of a run of \<^verbatim>\<open>run_benchmark\<close>: one constructor for each \<^verbatim>\<open>print\<close> statement,
  in the order of the source, and one for a call of \<^verbatim>\<open>benchmark_server\<close> with the label
  and the address of the server.
\<close>

datatype run_event =
    NoToolError
  | InstallHint
  | Banner
  | VerboseHint
  | CurrentHeader
  | CurrentServer nat string
  | NoCurrentWarning
  | LocalhostNote
  | InvalidAddress string
  | NoServers
  | Testing nat nat
  | ProgressLabel
  | ProgressDot
  | BenchmarkCall string string
  | Interrupted
  | FailedToTest string error
  | DoneLine

text \<open>
  The loop over \<^verbatim>\<open>custom_servers\<close>. The state is the trace of the block and the list
  \<^verbatim>\<open>servers_to_test\<close>; an exception of the validator would leave the loop.
\<close>

fun custom_loop :: "string list \<Rightarrow> run_event list \<times> (string \<times> string) list
    \<Rightarrow> error option \<times> run_event list \<times> (string \<times> string) list" where
  "custom_loop [] st = (None, st)"
| "custom_loop (server' # rest) st =
    (case validate_ip_address server' of
       Inl e \<Rightarrow> (Some e, st)
     | Inr valid \<Rightarrow>
         custom_loop rest
           (if valid then (fst st, snd st @ [(''Custom-'' @ server', server')])
            else (fst st @ [InvalidAddress server'], snd st)))"

text \<open>
  The block under \<^verbatim>\<open># Prepare server list\<close>: the exception that ended it, if any, what it
  printed, and the list \<^verbatim>\<open>servers_to_test\<close> after it. The argument \<^verbatim>\<open>custom_servers\<close> is
  \<open>None\<close> by default; the test \<^verbatim>\<open>if custom_servers:\<close> also fails on the empty list, on
  which the loop would do nothing.
\<close>

definition servers_to_test :: "string list \<Rightarrow> bool \<Rightarrow> bool \<Rightarrow> string list option \<Rightarrow> bool
    \<Rightarrow> error option \<times> run_event list \<times> (string \<times> string) list" where
  "servers_to_test current_dns test_current test_public custom_servers top3_only =
    (let st = ([], if test_current
                   then map (\<lambda>server'. (''Current-'' @ server', server')) current_dns
                   else []);
         r = (case custom_servers of
                None \<Rightarrow> (None, st)
              | Some servers \<Rightarrow> if servers \<noteq> [] then custom_loop servers st else (None, st))
     in if fst r = None then
          (None, fst (snd r),
           snd (snd r) @ (if test_public
                          then (if top3_only then top3_dns_servers else public_dns_servers)
                          else []))
        else r)"

text \<open>
  The loop under \<^verbatim>\<open># Run benchmarks\<close>. The state is the trace and the list \<^verbatim>\<open>results\<close>.
  An interrupt ends the loop; another exception is reported in verbose mode and the
  loop goes on with the next server.
\<close>

fun bench_loop :: "host \<Rightarrow> (string \<times> string) list \<Rightarrow> run_event list \<times> server_stats list
    \<Rightarrow> run_event list \<times> server_stats list" where
  "bench_loop h [] st = st"
| "bench_loop h ((nm, server') # rest) st =
    (let out = fst st @ (if \<not> verbose h then [ProgressDot] else []) @ [BenchmarkCall nm server']
     in case attempts h server' nm of
          Completed completed \<Rightarrow>
            bench_loop h rest (out, snd st @ [benchmark_server completed server' (Some nm)])
        | KeyboardInterrupt \<Rightarrow> (out @ [Interrupted], snd st)
        | Raised e \<Rightarrow>
            bench_loop h rest (out @ (if verbose h then [FailedToTest nm e] else []), snd st))"

text \<open>
  What \<^verbatim>\<open>run_benchmark\<close> prints after the banner and before it prepares the server list:
  the hint on the verbose mode, and the current servers or the warning that none was
  detected.
\<close>

definition announce :: "host \<Rightarrow> bool \<Rightarrow> string list \<Rightarrow> run_event list" where
  "announce h test_current current_dns =
    (if \<not> verbose h then [VerboseHint] else [])
    @ (if current_dns \<noteq> [] then
         CurrentHeader # map (\<lambda>(i, server'). CurrentServer i server') (enumerate 1 current_dns)
       else if test_current then [NoCurrentWarning, LocalhostNote]
       else [])"

text \<open>
  \<^verbatim>\<open>run_benchmark\<close>: the exception that left it, or the trace and the returned list.
  The two results of \<^verbatim>\<open>check_command\<close> are \<open>dig\<close> (stored in \<^verbatim>\<open>self.dig_available\<close>,
  which the probes read) and \<open>nslookup_available\<close>.
\<close>

definition run_benchmark :: "host \<Rightarrow> bool \<Rightarrow> bool \<Rightarrow> string list option \<Rightarrow> bool
    \<Rightarrow> error + (run_event list \<times> server_stats list)" where
  "run_benchmark h test_current test_public custom_servers top3_only =
    (let dig = check_command h ''dig'';
         nslookup_available = check_command h ''nslookup''
     in if \<not> dig \<and> \<not> nslookup_available then Inr ([NoToolError, InstallHint], [])
        else
          (let current_dns = (if test_current then get_current_dns_servers (resolvers h) else []);
               out1 = Banner # announce h test_current current_dns;
               r = servers_to_test current_dns test_current test_public custom_servers top3_only
           in case fst r of
                Some e \<Rightarrow> Inl e
              | None \<Rightarrow>
                 (let out2 = out1 @ fst (snd r);
                      servers = snd (snd r)
                  in if servers = [] then Inr (out2 @ [NoServers], [])
                     else
                       (let out3 = out2 @ [Testing (length servers) (length test_domains)]
                              @ (if \<not> verbose h then [ProgressLabel] else []);
                            st = bench_loop h servers (out3, [])
                        in Inr (fst st @ (if \<not> verbose h then [DoneLine] else []), snd st)))))"

text \<open>The calls of \<^verbatim>\<open>benchmark_server\<close> in a trace, in order.\<close>

fun benchmark_calls :: "run_event list \<Rightarrow> (string \<times> string) list" where
  "benchmark_calls [] = []"
| "benchmark_calls (BenchmarkCall nm server' # rest) = (nm, server') # benchmark_calls rest"
| "benchmark_calls (_ # rest) = benchmark_calls rest"

text \<open>
  The server list in the words of the specification: the current servers when they are
  tested, each labelled \<^verbatim>\<open>Current-\<close> and its address; then the custom servers that pass
  the validator, each labelled \<^verbatim>\<open>Custom-\<close> and its address; then, when the public
  servers are tested, the three curated entries or the ten public entries.
\<close>

definition ordered_server_list :: "string list \<Rightarrow> bool \<Rightarrow> bool \<Rightarrow> string list \<Rightarrow> bool
    \<Rightarrow> (string \<times> string) list" where
  "ordered_server_list current_dns test_current test_public custom top3_only =
    (if test_current then map (\<lambda>a. (''Current-'' @ a, a)) current_dns else [])
    @ map (\<lambda>a. (''Custom-'' @ a, a)) [a \<leftarrow> custom. validate_ip_address a = Inr True]
    @ (if test_public then (if top3_only then top3_dns_servers else public_dns_servers) else [])"

text \<open>
  Two hosts: one with dig only, whose resolver configuration names one server and on
  which every probe of every server fails, and one on which \<^verbatim>\<open>which\<close> finds no command.
\<close>

definition lab_host :: host where
  "lab_host =
    \<lparr> verbose = False,
      which = (\<lambda>command. if command = ''dig'' then Completes 0 ''/usr/bin/dig\<newline>''
                          else Completes 1 []),
      resolvers = spec_example,
      attempts = (\<lambda>server' nm. if server' = ''8.8.8.8'' then Raised OSError
                                 else Completed all_failed_run) \<rparr>"


section \<open>Properties of the Server Benchmarker\<close>

lemma binary_exponent_bounds:
  "2 powi (e - int fuel) \<le> x \<Longrightarrow> x < 2 powi (e + int fuel + 1) \<Longrightarrow>
   2 powi (binary_exponent fuel x e) \<le> x \<and> x < 2 powi (binary_exponent fuel x e + 1)"
proof (induction fuel arbitrary: e)
  case 0
  then show ?case by (simp add: binary_exponent.simps)
next
  case (Suc fuel)
  show ?case
  proof (cases "x < 2 powi e")
    case True
    have "(2::real) powi e \<le> 2 powi (e - 1 + int fuel + 1)"
      by (rule power_int_increasing) simp_all
    then have "x < 2 powi (e - 1 + int fuel + 1)"
      using True by linarith
    moreover have "2 powi (e - 1 - int fuel) \<le> x"
      using Suc.prems(1) by (simp add: algebra_simps)
    ultimately show ?thesis
      using Suc.IH [of "e - 1"] True by (simp add: binary_exponent.simps [of "Suc fuel"])
  next
    case False
    show ?thesis
    proof (cases "2 powi (e + 1) \<le> x")
      case True
      have "(2::real) powi (e + 1 - int fuel) \<le> 2 powi (e + 1)"
        by (rule power_int_increasing) simp_all
      then have "2 powi (e + 1 - int fuel) \<le> x"
        using True by linarith
      moreover have "x < 2 powi (e + 1 + int fuel + 1)"
        using Suc.prems(2) by (simp add: algebra_simps)
      ultimately show ?thesis
        using Suc.IH [of "e + 1"] True False by (simp add: binary_exponent.simps [of "Suc fuel"])
    next
      case False
      then show ?thesis
        using \<open>\<not> x < 2 powi e\<close> by (simp add: binary_exponent.simps [of "Suc fuel"])
    qed
  qed
qed

lemma exponent_unique:
  fixes x :: real
  assumes "2 powi k \<le> x" "x < 2 powi (k + 1)" "2 powi r \<le> x" "x < 2 powi (r + 1)"
  shows "r = k"
proof (rule ccontr)
  assume "r \<noteq> k"
  then consider "r + 1 \<le> k" | "k + 1 \<le> r"
    by linarith
  then show False
  proof cases
    case 1
    then have "(2::real) powi (r + 1) \<le> 2 powi k"
      by (intro power_int_increasing) simp_all
    then show False using assms by linarith
  next
    case 2
    then have "(2::real) powi (k + 1) \<le> 2 powi r"
      by (intro power_int_increasing) simp_all
    then show False using assms by linarith
  qed
qed

lemma binary_exponent_fuel:
  assumes "2 powi k \<le> x" "x < 2 powi (k + 1)" "- int n \<le> k" "k \<le> int n"
  shows "binary_exponent n x 0 = k"
proof -
  have "(2::real) powi (0 - int n) \<le> 2 powi k"
    by (rule power_int_increasing) (use assms(3) in simp_all)
  moreover have "(2::real) powi (k + 1) \<le> 2 powi (0 + int n + 1)"
    by (rule power_int_increasing) (use assms(4) in simp_all)
  ultimately have "2 powi (0 - int n) \<le> x" "x < 2 powi (0 + int n + 1)"
    using assms(1,2) by linarith+
  then have "2 powi (binary_exponent n x 0) \<le> x \<and> x < 2 powi (binary_exponent n x 0 + 1)"
    by (rule binary_exponent_bounds)
  then show ?thesis
    using exponent_unique assms(1,2) by blast
qed

lemma binary_exponent_eq:
  assumes "2 powi k \<le> x" "x < 2 powi (k + 1)" "- 1100 \<le> k" "k \<le> 1100"
  shows "binary_exponent 1100 x 0 = k"
  using binary_exponent_fuel [of k x 1100] assms by simp

lemma round_half_even_error: "\<bar>of_int (round_half_even y) - y\<bar> \<le> 1 / 2"
  unfolding round_half_even_def Let_def by (auto; linarith)

lemma round_half_even_down: "of_int f \<le> y \<Longrightarrow> y < of_int f + 1 / 2 \<Longrightarrow> round_half_even y = f"
proof -
  assume a: "of_int f \<le> y" "y < of_int f + 1 / 2"
  then have "\<lfloor>y\<rfloor> = f"
    by (intro floor_unique) linarith+
  then show ?thesis
    using a by (simp add: round_half_even_def)
qed

lemma round_half_even_up: "of_int f + 1 / 2 < y \<Longrightarrow> y < of_int f + 1 \<Longrightarrow> round_half_even y = f + 1"
proof -
  assume a: "of_int f + 1 / 2 < y" "y < of_int f + 1"
  then have "\<lfloor>y\<rfloor> = f"
    by (intro floor_unique) linarith+
  then show ?thesis
    using a by (simp add: round_half_even_def)
qed

lemma to_double_pos:
  assumes "2 powi k \<le> x" "x < 2 powi (k + 1)" "- 1100 \<le> k" "k \<le> 1100"
  shows "to_double x = of_int (round_half_even (x / 2 powi (k - 52))) * 2 powi (k - 52)"
proof -
  have "(0::real) < 2 powi k"
    by simp
  then have pos: "0 < x"
    using assms(1) by linarith
  then have "binary_exponent 1100 \<bar>x\<bar> 0 = k"
    using binary_exponent_eq [OF assms] by simp
  then show ?thesis
    using pos by (simp add: to_double_def)
qed

lemma to_double_error:
  assumes "2 powi k \<le> x" "x < 2 powi (k + 1)" "- 1100 \<le> k" "k \<le> 1100"
  shows "\<bar>to_double x - x\<bar> \<le> x * 2 powi (- 53)"
proof -
  define u :: real where "u = 2 powi (k - 52)"
  have u: "0 < u"
    by (simp add: u_def)
  have "\<bar>of_int (round_half_even (x / u)) - x / u\<bar> \<le> 1 / 2"
    by (rule round_half_even_error)
  then have "\<bar>of_int (round_half_even (x / u)) - x / u\<bar> * u \<le> 1 / 2 * u"
    using u by (intro mult_right_mono) simp_all
  moreover have "(of_int (round_half_even (x / u)) - x / u) * u
      = of_int (round_half_even (x / u)) * u - x"
    using u by (simp add: field_simps)
  then have "\<bar>of_int (round_half_even (x / u)) - x / u\<bar> * u
      = \<bar>of_int (round_half_even (x / u)) * u - x\<bar>"
    using u by (metis abs_mult abs_of_pos)
  ultimately have "\<bar>to_double x - x\<bar> \<le> u / 2"
    unfolding to_double_pos [OF assms] u_def by simp
  moreover have "u / 2 = 2 powi k * 2 powi (- 53)"
    unfolding u_def by (simp add: power_int_add [symmetric] power_int_diff)
  moreover have "2 powi k * 2 powi (- 53) \<le> x * (2::real) powi (- 53)"
    using assms(1) by (intro mult_right_mono) simp_all
  ultimately show ?thesis
    by linarith
qed

lemma to_double_error_range:
  assumes "2 powi (- 10) \<le> x" "x < 2 powi 10"
  shows "\<bar>to_double x - x\<bar> \<le> x * 2 powi (- 53)"
proof -
  define k where "k = binary_exponent 1100 x 0"
  have "(2::real) powi (0 - int 1100) \<le> 2 powi (- 10)"
    by (rule power_int_increasing) simp_all
  moreover have "(2::real) powi 10 \<le> 2 powi (0 + int 1100 + 1)"
    by (rule power_int_increasing) simp_all
  ultimately have "2 powi (0 - int 1100) \<le> x" "x < 2 powi (0 + int 1100 + 1)"
    using assms by linarith+
  then have b: "2 powi k \<le> x \<and> x < 2 powi (k + 1)"
    unfolding k_def by (rule binary_exponent_bounds)
  have "k < 10"
  proof (rule ccontr)
    assume "\<not> k < 10"
    then have "(2::real) powi 10 \<le> 2 powi k"
      by (intro power_int_increasing) simp_all
    then show False
      using b assms by linarith
  qed
  moreover have "- 10 \<le> k"
  proof (rule ccontr)
    assume "\<not> - 10 \<le> k"
    then have "(2::real) powi (k + 1) \<le> 2 powi (- 10)"
      by (intro power_int_increasing) simp_all
    then show False
      using b assms by linarith
  qed
  ultimately show ?thesis
    using to_double_error [of k x] b by simp
qed

lemma to_double_between:
  assumes "2 powi (- 10) \<le> x" "x < 2 powi 10"
  shows "x * (1 - 2 powi (- 53)) \<le> to_double x \<and> to_double x \<le> x * (1 + 2 powi (- 53))"
proof -
  have "\<bar>to_double x - x\<bar> \<le> x * 2 powi (- 53)"
    using assms by (rule to_double_error_range)
  then have "to_double x - x \<le> x * 2 powi (- 53)" "- (to_double x - x) \<le> x * 2 powi (- 53)"
    unfolding abs_le_iff by blast+
  then show ?thesis
    by (simp add: algebra_simps)
qed

lemma rate_error:
  fixes a :: real
  assumes "1 / 24 \<le> a" "a \<le> 1"
  shows "\<bar>to_double (to_double a * 100) - 100 * a\<bar> \<le> 100 * a * 2 powi (- 51)"
proof -
  have ra: "a * (1 - 2 powi (- 53)) \<le> to_double a \<and> to_double a \<le> a * (1 + 2 powi (- 53))"
    by (rule to_double_between) (use assms in simp_all)
  have "to_double a * 100 * (1 - 2 powi (- 53)) \<le> to_double (to_double a * 100)
      \<and> to_double (to_double a * 100) \<le> to_double a * 100 * (1 + 2 powi (- 53))"
    by (rule to_double_between) (use ra assms in simp_all)
  then show ?thesis
    unfolding abs_le_iff using ra assms by simp
qed

lemma to_double_0: "to_double 0 = 0"
  by (simp add: to_double_def)

lemma to_double_down:
  assumes "2 powi k \<le> x" "x < 2 powi (k + 1)" "- 1100 \<le> k" "k \<le> 1100"
    and "of_int f \<le> x / 2 powi (k - 52)" "x / 2 powi (k - 52) < of_int f + 1 / 2"
  shows "to_double x = of_int f * 2 powi (k - 52)"
  unfolding to_double_pos [OF assms(1-4)] round_half_even_down [OF assms(5,6)] by (rule refl)

lemma to_double_up:
  assumes "2 powi k \<le> x" "x < 2 powi (k + 1)" "- 1100 \<le> k" "k \<le> 1100"
    and "of_int f + 1 / 2 < x / 2 powi (k - 52)" "x / 2 powi (k - 52) < of_int f + 1"
  shows "to_double x = of_int (f + 1) * 2 powi (k - 52)"
  unfolding to_double_pos [OF assms(1-4)] round_half_even_up [OF assms(5,6)] by (rule refl)

lemma to_double_exact:
  assumes "2 powi k \<le> x" "x < 2 powi (k + 1)" "- 1100 \<le> k" "k \<le> 1100"
    and "x / 2 powi (k - 52) = of_int f"
  shows "to_double x = x"
proof -
  have "to_double x = of_int f * 2 powi (k - 52)"
    using assms by (intro to_double_down) simp_all
  also have "\<dots> = x"
    unfolding assms(5) [symmetric] by simp
  finally show ?thesis .
qed

lemma to_double_11_12: "to_double (11 / 12) = 8256599316845909 / 9007199254740992"
  using to_double_down [of "- 1" "11 / 12" 8256599316845909] by simp

lemma to_double_275_3: "to_double (275 / 3) = 6450468216285867 / 70368744177664"
  using to_double_up [of 6 "275 / 3" 6450468216285866] by simp

lemma to_double_eighths:
  "to_double (1 / 8) = 1 / 8" "to_double (1 / 4) = 1 / 4" "to_double (3 / 8) = 3 / 8"
  "to_double (1 / 2) = 1 / 2" "to_double (5 / 8) = 5 / 8" "to_double (3 / 4) = 3 / 4"
  "to_double (7 / 8) = 7 / 8" "to_double 1 = 1"
  using to_double_exact [of "- 3" "1 / 8" 4503599627370496]
    to_double_exact [of "- 2" "1 / 4" 4503599627370496]
    to_double_exact [of "- 2" "3 / 8" 6755399441055744]
    to_double_exact [of "- 1" "1 / 2" 4503599627370496]
    to_double_exact [of "- 1" "5 / 8" 5629499534213120]
    to_double_exact [of "- 1" "3 / 4" 6755399441055744]
    to_double_exact [of "- 1" "7 / 8" 7881299347898368]
    to_double_exact [of 0 1 4503599627370496]
  by simp_all

lemma to_double_rates:
  "to_double (25 / 2) = 25 / 2" "to_double 25 = 25" "to_double (75 / 2) = 75 / 2"
  "to_double 50 = 50" "to_double (125 / 2) = 125 / 2" "to_double 75 = 75"
  "to_double (175 / 2) = 175 / 2" "to_double 100 = 100"
  using to_double_exact [of 3 "25 / 2" 7036874417766400]
    to_double_exact [of 4 25 7036874417766400]
    to_double_exact [of 5 "75 / 2" 5277655813324800]
    to_double_exact [of 5 50 7036874417766400]
    to_double_exact [of 5 "125 / 2" 8796093022208000]
    to_double_exact [of 6 75 5277655813324800]
    to_double_exact [of 6 "175 / 2" 6157265115545600]
    to_double_exact [of 6 100 7036874417766400]
  by simp_all

lemma rate_exact:
  assumes "3 dvd n" "n \<le> 24"
  shows "to_double (to_double (real n / 24) * 100) = 100 * real n / 24"
proof -
  from assms have "n \<in> {0, 3, 6, 9, 12, 15, 18, 21, 24}"
    by (auto elim!: dvdE)
  then show ?thesis
    by (auto simp: to_double_0 to_double_eighths to_double_rates)
qed

lemma to_double_rate_22:
  "to_double (to_double (11 / 12) * 100) = 3225234108142933 / 35184372088832"
  unfolding to_double_11_12
  using to_double_down [of 6 "8256599316845909 / 9007199254740992 * 100" 6450468216285866]
  by simp

lemma collect_results_count:
  "length (fst (collect_results completed acc)) + snd (collect_results completed acc)
     = length (fst acc) + snd acc + length completed"
  by (induction completed acc rule: collect_results.induct) simp_all

lemma length_test_domains: "length test_domains = 24"
  by (simp add: test_domains_def)

lemma benchmark_server_sum:
  "successful_queries (benchmark_server completed dns_server name_arg)
     + failed_queries (benchmark_server completed dns_server name_arg) = length completed"
  using collect_results_count [of completed "([], 0)"]
  by (auto simp: benchmark_server_def split: prod.split)

lemma benchmark_server_rate:
  "success_rate (benchmark_server completed dns_server name_arg)
     = to_double (to_double
         (real (successful_queries (benchmark_server completed dns_server name_arg)) / 24) * 100)"
  by (simp add: benchmark_server_def length_test_domains split: prod.split)

text \<open>
  Claim C2. Every future of the pool completes exactly once, so the completed futures are
  those of the test domains in some order. Then the two counters of the returned
  statistics add up to the number of test domains, however many probes fail. The success
  rate is the double that the two rounded operations of
  \<^verbatim>\<open>(len(successful_queries) / total_queries) * 100\<close> give. It differs from 100 times the
  number of successes over the number of test domains by a relative error of at most
  \<open>2 powi (- 51)\<close>, and it is equal to that number when the number of successes is a
  multiple of 3.
\<close>

theorem benchmark_server_counts:
  assumes "mset (map fst completed) = mset test_domains"
  shows "successful_queries (benchmark_server completed dns_server name_arg)
           + failed_queries (benchmark_server completed dns_server name_arg)
           = length test_domains
       \<and> success_rate (benchmark_server completed dns_server name_arg)
           = to_double (to_double
               (real (successful_queries (benchmark_server completed dns_server name_arg))
                  / real (length test_domains)) * 100)
       \<and> \<bar>success_rate (benchmark_server completed dns_server name_arg)
            - 100 * real (successful_queries (benchmark_server completed dns_server name_arg))
                / real (length test_domains)\<bar>
           \<le> 100 * real (successful_queries (benchmark_server completed dns_server name_arg))
                / real (length test_domains) * 2 powi (- 51)
       \<and> (3 dvd successful_queries (benchmark_server completed dns_server name_arg) \<longrightarrow>
            success_rate (benchmark_server completed dns_server name_arg)
              = 100 * real (successful_queries (benchmark_server completed dns_server name_arg))
                  / real (length test_domains))"
proof -
  define n where "n = successful_queries (benchmark_server completed dns_server name_arg)"
  define rate where "rate = success_rate (benchmark_server completed dns_server name_arg)"
  have "size (mset (map fst completed)) = size (mset test_domains)"
    using assms by simp
  then have len: "length completed = 24"
    by (simp add: length_test_domains)
  have sum: "n + failed_queries (benchmark_server completed dns_server name_arg) = 24"
    unfolding n_def using benchmark_server_sum [of completed dns_server name_arg] len by simp
  then have n: "n \<le> 24"
    by simp
  have rate: "rate = to_double (to_double (real n / 24) * 100)"
    unfolding rate_def n_def by (rule benchmark_server_rate)
  have bound: "\<bar>rate - 100 * real n / 24\<bar> \<le> 100 * real n / 24 * 2 powi (- 51)"
  proof (cases "n = 0")
    case True
    then show ?thesis
      by (simp add: rate to_double_0)
  next
    case False
    then have "1 / 24 \<le> real n / 24" "real n / 24 \<le> 1"
      using n by simp_all
    then have "\<bar>to_double (to_double (real n / 24) * 100) - 100 * (real n / 24)\<bar>
        \<le> 100 * (real n / 24) * 2 powi (- 51)"
      by (rule rate_error)
    then show ?thesis
      by (simp add: rate)
  qed
  have exact: "3 dvd n \<longrightarrow> rate = 100 * real n / 24"
    using rate_exact [of n] n by (simp add: rate)
  show ?thesis
    using sum rate bound exact unfolding n_def rate_def length_test_domains by simp
qed

lemma mixed_run_domains: "mset (map fst mixed_run) = mset test_domains"
  by (simp add: mixed_run_def comp_def)

lemma mixed_collect: "collect_results mixed_run ([], 0) = (replicate 22 12, 2)"
  by (simp add: mixed_run_def test_domains_def eval_nat_numeral)

lemma three_failed_run_domains: "mset (map fst three_failed_run) = mset test_domains"
  by (simp add: three_failed_run_def comp_def)

lemma three_failed_collect: "collect_results three_failed_run ([], 0) = (replicate 21 12, 3)"
  by (simp add: three_failed_run_def test_domains_def eval_nat_numeral)

theorem benchmark_server_counts_witness:
  "successful_queries (benchmark_server mixed_run ''9.9.9.9'' None) = 22
   \<and> failed_queries (benchmark_server mixed_run ''9.9.9.9'' None) = 2
   \<and> success_rate (benchmark_server mixed_run ''9.9.9.9'' None)
       = 3225234108142933 / 35184372088832
   \<and> successful_queries (benchmark_server three_failed_run ''9.9.9.9'' None) = 21
   \<and> failed_queries (benchmark_server three_failed_run ''9.9.9.9'' None) = 3
   \<and> success_rate (benchmark_server three_failed_run ''9.9.9.9'' None) = 175 / 2"
  using benchmark_server_counts [OF mixed_run_domains, of "''9.9.9.9''" None]
    benchmark_server_counts [OF three_failed_run_domains, of "''9.9.9.9''" None]
  by (simp add: benchmark_server_def mixed_collect three_failed_collect length_test_domains
      to_double_rate_22 to_double_eighths to_double_rates split: prod.split)

theorem rate_rounding_counterexample:
  "success_rate (benchmark_server mixed_run ''9.9.9.9'' None)
     \<noteq> 100 * real (successful_queries (benchmark_server mixed_run ''9.9.9.9'' None))
         / real (length test_domains)
   \<and> success_rate (benchmark_server mixed_run ''9.9.9.9'' None)
     \<noteq> to_double (100 * real (successful_queries (benchmark_server mixed_run ''9.9.9.9'' None))
         / real (length test_domains))"
  by (simp add: benchmark_server_def mixed_collect length_test_domains
      to_double_rate_22 to_double_275_3 split: prod.split)

section \<open>Properties of the Result Reporter\<close>


lemma latency_stats_avg: "(fst (latency_stats qs) = Infinite) = (qs = [])"
  by (simp add: latency_stats_def split: list.split)

lemma benchmark_server_avg_inf:
  "(avg_time (benchmark_server completed dns_server name_arg) = Infinite)
     = (successful_queries (benchmark_server completed dns_server name_arg) = 0)"
  by (simp add: benchmark_server_def latency_stats_def split: prod.split list.split)

lemma benchmark_server_all_inf:
  "successful_queries (benchmark_server completed dns_server name_arg) = 0 \<Longrightarrow>
   avg_time (benchmark_server completed dns_server name_arg) = Infinite \<and>
   min_time (benchmark_server completed dns_server name_arg) = Infinite \<and>
   max_time (benchmark_server completed dns_server name_arg) = Infinite \<and>
   median_time (benchmark_server completed dns_server name_arg) = Infinite \<and>
   success_rate (benchmark_server completed dns_server name_arg) = 0"
  by (simp add: benchmark_server_def latency_stats_def to_double_0 split: prod.splits list.splits)

lemma set_valid_results: "set (valid_results results) = {r \<in> set results. avg_time r \<noteq> Infinite}"
  by (simp add: valid_results_def valid_unsorted_def)

lemma set_failed_results: "set (failed_results results) = {r \<in> set results. avg_time r = Infinite}"
  by (simp add: failed_results_def)

lemma table_rows_append: "table_rows (xs @ ys) = table_rows xs @ table_rows ys"
  by (induction xs rule: table_rows.induct) simp_all

lemma table_rows_map_TableRow: "table_rows (map (\<lambda>(i, r). TableRow i r) irs) = irs"
  by (induction irs) auto

lemma table_rows_map_FailedRow: "table_rows (map FailedRow rs) = []"
  by (induction rs) auto

lemma table_rows_compare: "table_rows (fst (compare_with_current best others)) = []"
  by (simp add: compare_with_current_def Let_def split: list.split sum.split)

lemma table_rows_report_head: "table_rows (report_head results) = enumerate 1 (valid_results results)"
  by (simp add: report_head_def Let_def table_rows_append table_rows_map_TableRow
      table_rows_map_FailedRow split: list.split)

lemma print_results_text:
  assumes "results \<noteq> []"
  shows "fst (print_results results False) =
     report_head results @
       (case valid_results results of [] \<Rightarrow> []
        | best # others \<Rightarrow> fst (compare_with_current best others))"
  using assms by (simp add: print_results_def split: list.split prod.split)

lemma table_rows_print_results:
  "table_rows (fst (print_results results False)) = enumerate 1 (valid_results results)"
proof (cases "results = []")
  case True
  then show ?thesis
    by (simp add: print_results_def valid_results_def valid_unsorted_def)
next
  case False
  show ?thesis
    unfolding print_results_text [OF False]
    by (simp add: table_rows_append table_rows_report_head table_rows_compare split: list.split)
qed

lemma FailedRow_report_head:
  "(FailedRow r \<in> set (report_head results)) = (r \<in> set (failed_results results))"
  by (auto simp: report_head_def Let_def split: list.split)

lemma FailedRow_compare: "FailedRow r \<notin> set (fst (compare_with_current best others))"
  by (simp add: compare_with_current_def Let_def split: list.split sum.split)

lemma FailedRow_print_results:
  assumes "results \<noteq> []"
  shows "(FailedRow r \<in> set (fst (print_results results False))) = (r \<in> set (failed_results results))"
  unfolding print_results_text [OF assms]
  by (simp add: FailedRow_report_head FailedRow_compare split: list.split)

lemma collect_results_successful:
  "length (fst (collect_results completed acc))
     = length (fst acc) + length (filter probe_ok completed)"
  by (induction completed acc rule: collect_results.induct) simp_all

lemma benchmark_server_successful:
  "successful_queries (benchmark_server completed dns_server name_arg)
     = length (filter probe_ok completed)"
  using collect_results_successful [of completed "([], 0)"]
  by (auto simp: benchmark_server_def split: prod.split)

text \<open>
  Claim C3. The number of successful probes of a result of \<^verbatim>\<open>benchmark_server\<close> is the
  number of completed futures that pass the test of the loop. When no future passes it,
  the result has the infinite sentinel in its four latency fields and a success rate of
  0. Among the results given to the reporter, the results of such runs, and only they,
  are classified as failed (listed in the failure listing); the results of runs with a
  successful probe, and only they, are classified as valid (a row of the ranked table).
\<close>

theorem zero_success_is_failed:
  assumes "r = benchmark_server completed dns_server name_arg" and "r \<in> set results"
  shows "successful_queries r = length (filter probe_ok completed)
       \<and> (filter probe_ok completed = [] \<longrightarrow>
            avg_time r = Infinite \<and> min_time r = Infinite \<and> max_time r = Infinite
            \<and> median_time r = Infinite \<and> success_rate r = 0)
       \<and> (r \<in> set (failed_results results)) = (filter probe_ok completed = [])
       \<and> (r \<in> set (valid_results results)) = (filter probe_ok completed \<noteq> [])
       \<and> (FailedRow r \<in> set (fst (print_results results False)))
            = (filter probe_ok completed = [])
       \<and> (r \<in> snd ` set (table_rows (fst (print_results results False))))
            = (filter probe_ok completed \<noteq> [])"
proof -
  have ne: "results \<noteq> []"
    using assms(2) by auto
  have n: "successful_queries r = length (filter probe_ok completed)"
    unfolding assms(1) by (rule benchmark_server_successful)
  have zero: "(successful_queries r = 0) = (filter probe_ok completed = [])"
    unfolding n by simp
  have inf: "(avg_time r = Infinite) = (filter probe_ok completed = [])"
    unfolding assms(1) benchmark_server_avg_inf zero [unfolded assms(1)] by (rule refl)
  have all_inf: "filter probe_ok completed = [] \<longrightarrow>
      avg_time r = Infinite \<and> min_time r = Infinite \<and> max_time r = Infinite
      \<and> median_time r = Infinite \<and> success_rate r = 0"
  proof
    assume "filter probe_ok completed = []"
    then have "successful_queries (benchmark_server completed dns_server name_arg) = 0"
      by (simp add: benchmark_server_successful)
    then show "avg_time r = Infinite \<and> min_time r = Infinite \<and> max_time r = Infinite
        \<and> median_time r = Infinite \<and> success_rate r = 0"
      unfolding assms(1) by (rule benchmark_server_all_inf)
  qed
  have rows: "snd ` set (table_rows (fst (print_results results False))) = set (valid_results results)"
    by (simp add: table_rows_print_results flip: set_map)
  have "(r \<in> set (failed_results results)) = (filter probe_ok completed = [])"
    "(r \<in> set (valid_results results)) = (filter probe_ok completed \<noteq> [])"
    using assms(2) inf by (simp_all add: set_valid_results set_failed_results)
  then show ?thesis
    using n all_inf unfolding rows FailedRow_print_results [OF ne] by simp
qed

text \<open>
  Claim C5. The rows of the ranked table are, in order and numbered from 1, the list
  \<^verbatim>\<open>valid_results\<close>, which is a permutation of the results with a finite average,
  sorted ascending by average, with the results of equal average in their original order.
\<close>

theorem ranked_table_sorted_stable:
  "map snd (table_rows (fst (print_results results False))) = valid_results results
   \<and> map fst (table_rows (fst (print_results results False)))
        = [1..<Suc (length (valid_results results))]
   \<and> mset (valid_results results) = mset [r \<leftarrow> results. avg_time r \<noteq> Infinite]
   \<and> sorted (map avg_time (valid_results results))
   \<and> (\<forall>k. [r \<leftarrow> valid_results results. avg_time r = k]
            = [r \<leftarrow> [r \<leftarrow> results. avg_time r \<noteq> Infinite]. avg_time r = k])"
proof -
  have "[1..<1 + length (valid_results results)] = [1..<Suc (length (valid_results results))]"
    by simp
  then show ?thesis
    by (simp add: table_rows_print_results valid_results_def valid_unsorted_def sort_key_stable
        del: upt_Suc)
qed

text \<open>
  Claim C10. On the empty list of results the reporter returns at once and prints
  nothing, in the JSON mode as in the table mode.
\<close>

theorem print_results_empty_silent: "print_results [] json_output = ([], None)"
  by (simp add: print_results_def)

lemma all_failed_collect: "collect_results all_failed_run ([], 0) = ([], 24)"
  by (simp add: all_failed_run_def test_domains_def)

lemma all_failed_stats:
  "benchmark_server all_failed_run ''10.0.0.1'' None =
     \<lparr> name = ''10.0.0.1'', server = ''10.0.0.1'', success_rate = 0,
       successful_queries = 0, failed_queries = 24,
       avg_time = Infinite, min_time = Infinite, max_time = Infinite, median_time = Infinite \<rparr>"
  by (simp add: benchmark_server_def all_failed_collect latency_stats_def to_double_0)

lemma all_failed_probes: "filter probe_ok all_failed_run = []"
  by (simp add: all_failed_run_def)

lemma mixed_probes: "length (filter probe_ok mixed_run) = 22"
  by (simp add: mixed_run_def test_domains_def)

theorem zero_success_is_failed_witness:
  "avg_time (benchmark_server all_failed_run ''10.0.0.1'' None) = Infinite
   \<and> success_rate (benchmark_server all_failed_run ''10.0.0.1'' None) = 0
   \<and> FailedRow (benchmark_server all_failed_run ''10.0.0.1'' None)
        \<in> set (fst (print_results [benchmark_server mixed_run ''9.9.9.9'' None,
                      benchmark_server all_failed_run ''10.0.0.1'' None] False))
   \<and> benchmark_server all_failed_run ''10.0.0.1'' None
        \<notin> snd ` set (table_rows (fst (print_results [benchmark_server mixed_run ''9.9.9.9'' None,
                      benchmark_server all_failed_run ''10.0.0.1'' None] False)))
   \<and> successful_queries (benchmark_server mixed_run ''9.9.9.9'' None) = 22
   \<and> benchmark_server mixed_run ''9.9.9.9'' None
        \<in> snd ` set (table_rows (fst (print_results [benchmark_server mixed_run ''9.9.9.9'' None,
                      benchmark_server all_failed_run ''10.0.0.1'' None] False)))
   \<and> FailedRow (benchmark_server mixed_run ''9.9.9.9'' None)
        \<notin> set (fst (print_results [benchmark_server mixed_run ''9.9.9.9'' None,
                      benchmark_server all_failed_run ''10.0.0.1'' None] False))"
proof -
  have mixed: "filter probe_ok mixed_run \<noteq> []"
    using mixed_probes by auto
  show ?thesis
    using zero_success_is_failed [OF refl, of all_failed_run "''10.0.0.1''" None
        "[benchmark_server mixed_run ''9.9.9.9'' None,
          benchmark_server all_failed_run ''10.0.0.1'' None]"]
      zero_success_is_failed [OF refl, of mixed_run "''9.9.9.9''" None
        "[benchmark_server mixed_run ''9.9.9.9'' None,
          benchmark_server all_failed_run ''10.0.0.1'' None]"]
    by (simp add: all_failed_probes mixed mixed_probes)
qed

lemma ranking_example_valid:
  "valid_results ranking_example =
     [stat ''B'' (Finite 10), stat ''E'' (Finite 10), stat ''D'' (Finite 30), stat ''A'' (Finite 50)]"
  by (simp add: valid_results_def valid_unsorted_def ranking_example_def stat_def)

theorem ranked_table_sorted_stable_witness:
  "map (\<lambda>(i, r). (i, name r)) (table_rows (fst (print_results ranking_example False)))
     = [(1, ''B''), (2, ''E''), (3, ''D''), (4, ''A'')]"
proof -
  have "map snd (table_rows (fst (print_results ranking_example False)))
          = valid_results ranking_example
      \<and> map fst (table_rows (fst (print_results ranking_example False)))
          = [1..<Suc (length (valid_results ranking_example))]"
    using ranked_table_sorted_stable [of ranking_example] by blast
  then have "table_rows (fst (print_results ranking_example False))
      = zip [1..<Suc (length (valid_results ranking_example))] (valid_results ranking_example)"
    by (metis zip_map_fst_snd)
  then show ?thesis
    by (simp add: ranking_example_valid stat_def upt_rec)
qed

section \<open>Properties of the Lookup Probe\<close>

text \<open>
  Claim C7. A probe always returns a pair and never raises. The pair reports success
  exactly when the success criteria hold; its time is the measured time in that case and
  the infinite sentinel in every other case (timeout, process or runtime error, non-zero
  status, criteria not met), so a finite time only comes with success.
\<close>

theorem query_dns_total:
  "\<exists>success t. query_dns env domain dns_server = Inr (success, t)
     \<and> truthy success = lookup_succeeded env domain dns_server
     \<and> t = (if lookup_succeeded env domain dns_server
            then Finite ((end_time env - start_time env) * 1000) else Infinite)"
proof (cases "dig_available env")
  case None
  then show ?thesis
    by (simp add: query_dns_def query_dns_try_def lookup_succeeded_def)
next
  case (Some dig)
  show ?thesis
  proof (cases "run_command env
      (if dig then [''dig'', ''+short'', ''+time=2'', ''+tries=1'', ''@'' @ dns_server, domain]
       else [''nslookup'', ''-timeout=2'', domain, dns_server])")
    case (Raises e)
    then show ?thesis
      using Some
      by (cases dig; cases e) (simp_all add: query_dns_def query_dns_try_def lookup_succeeded_def)
  next
    case (Completes returncode out)
    then show ?thesis
      using Some
      by (cases dig) (auto simp: query_dns_def query_dns_try_def lookup_succeeded_def Let_def)
  qed
qed

lemma dig_env_succeeded:
  "lookup_succeeded (dig_env (Completes 0 ''93.184.216.34'')) ''example.com'' ''1.1.1.1''"
  by (simp add: lookup_succeeded_def dig_env_def strip_def is_space_def)

theorem query_dns_total_witness:
  "\<exists>success. query_dns (dig_env (Completes 0 ''93.184.216.34'')) ''example.com'' ''1.1.1.1''
      = Inr (success, Finite 20) \<and> truthy success"
proof -
  obtain success t where
    q: "query_dns (dig_env (Completes 0 ''93.184.216.34'')) ''example.com'' ''1.1.1.1''
          = Inr (success, t)"
    and s: "truthy success
          = lookup_succeeded (dig_env (Completes 0 ''93.184.216.34'')) ''example.com'' ''1.1.1.1''"
    and t: "t = (if lookup_succeeded (dig_env (Completes 0 ''93.184.216.34'')) ''example.com'' ''1.1.1.1''
            then Finite ((end_time (dig_env (Completes 0 ''93.184.216.34''))
                          - start_time (dig_env (Completes 0 ''93.184.216.34''))) * 1000)
            else Infinite)"
    using query_dns_total [of "dig_env (Completes 0 ''93.184.216.34'')" "''example.com''" "''1.1.1.1''"]
    by blast
  have "t = Finite 20"
    unfolding t by (simp add: dig_env_succeeded) (simp add: dig_env_def)
  moreover have "truthy success"
    unfolding s by (rule dig_env_succeeded)
  ultimately show ?thesis
    using q by blast
qed

section \<open>The comparison with the current servers\<close>

lemma first_rank_enumerate:
  "current_best \<in> set ranked \<Longrightarrow>
   first_rank current_best (enumerate n ranked)
     = Inr (n + length (takeWhile (\<lambda>r. r \<noteq> current_best) ranked))"
  by (induction ranked arbitrary: n) auto

lemma filter_head_in_set: "filter P xs = y # ys \<Longrightarrow> y \<in> set xs \<and> P y"
proof -
  assume "filter P xs = y # ys"
  then have "y \<in> set (filter P xs)"
    by simp
  then show ?thesis
    by simp
qed

lemma valid_results_finite:
  "r \<in> set (valid_results results) \<Longrightarrow> \<exists>a. avg_time r = Finite a"
  by (cases "avg_time r") (auto simp: set_valid_results)

text \<open>
  Claim C9, as amended. Let there be at least two valid results, and let the best current
  result be the first result in the ranking whose label starts with \<^verbatim>\<open>Current-\<close>. If
  it is the first of the ranking, the reporter prints that the current DNS is already
  the fastest. If it is not, and its average \<open>c\<close> is not zero, the reporter prints its rank
  and the improvement \<open>(c - b) / c * 100\<close>, where \<open>b\<close> is the average of the first of the
  ranking.
\<close>

theorem current_comparison:
  assumes "valid_results results = best # others" and "others \<noteq> []"
    and "[r \<leftarrow> best # others. is_current r] = current_best # later"
  shows "(current_best = best \<longrightarrow>
            print_results results False = (report_head results @ [AlreadyFastest], None))
       \<and> (current_best \<noteq> best \<and> avg_time current_best = Finite c \<and> c \<noteq> 0
            \<and> avg_time best = Finite b \<longrightarrow>
            print_results results False =
              (report_head results @
                 [CurrentRank (Suc (length (takeWhile (\<lambda>r. r \<noteq> current_best) (best # others)))),
                  Switching best ((c - b) / c * 100)], None))"
proof -
  have ne: "results \<noteq> []"
    using assms(1) by (auto simp: valid_results_def valid_unsorted_def)
  have mem: "current_best \<in> set (best # others)"
    using filter_head_in_set [OF assms(3)] by simp
  have rank: "first_rank current_best (enumerate 1 (best # others))
      = Inr (Suc (length (takeWhile (\<lambda>r. r \<noteq> current_best) (best # others))))"
    using first_rank_enumerate [OF mem, of 1] by simp
  have len: "length (best # others) > 1"
    using assms(2) by (cases others) simp_all
  have cmp: "compare_with_current best others =
      (if Suc (length (takeWhile (\<lambda>r. r \<noteq> current_best) (best # others))) > 1 then
         (case improvement_pct (avg_time current_best) (avg_time best) of
            Inl e \<Rightarrow> ([], Some e)
          | Inr improvement \<Rightarrow>
              ([CurrentRank (Suc (length (takeWhile (\<lambda>r. r \<noteq> current_best) (best # others)))),
                Switching best improvement], None))
       else ([AlreadyFastest], None))"
    unfolding compare_with_current_def Let_def assms(3) list.case rank sum.case
    using len by simp
  have pr: "print_results results False =
      (report_head results @ fst (compare_with_current best others),
       snd (compare_with_current best others))"
    using ne by (simp add: print_results_def assms(1) split: prod.split)
  show ?thesis
    unfolding pr cmp by (auto simp: improvement_pct_def)
qed


lemma no_comparison:
  assumes "results \<noteq> []"
    and "[r \<leftarrow> valid_results results. is_current r] = [] \<or> length (valid_results results) \<le> 1"
  shows "print_results results False = (report_head results, None)"
proof (cases "valid_results results")
  case Nil
  then show ?thesis
    using assms(1) by (simp add: print_results_def)
next
  case (Cons best others)
  have "compare_with_current best others = ([], None)"
    using assms(2) unfolding Cons
    by (auto simp: compare_with_current_def Let_def split: list.split if_splits)
  then show ?thesis
    using assms(1) by (simp add: print_results_def Cons)
qed

lemma slow_current_valid:
  "valid_results slow_current =
     [stat ''Cloudflare'' (Finite 50), stat ''Current-192.168.1.1'' (Finite 100)]"
  by (simp add: valid_results_def valid_unsorted_def slow_current_def stat_def)

lemma fast_current_valid:
  "valid_results fast_current =
     [stat ''Current-192.168.1.1'' (Finite 20), stat ''Cloudflare'' (Finite 50)]"
  by (simp add: valid_results_def valid_unsorted_def fast_current_def stat_def)

lemma lone_current_valid:
  "valid_results lone_current = [stat ''Current-192.168.1.1'' (Finite 20)]"
  by (simp add: valid_results_def valid_unsorted_def lone_current_def stat_def)

lemma is_current_examples:
  "is_current (stat ''Current-192.168.1.1'' a)" "\<not> is_current (stat ''Cloudflare'' a)"
  by (simp_all add: is_current_def stat_def startswith_def)

lemma stat_neq: "stat ''Current-192.168.1.1'' a \<noteq> stat ''Cloudflare'' b"
  by (simp add: stat_def)

theorem current_comparison_witness:
  "print_results slow_current False =
     (report_head slow_current @
        [CurrentRank 2, Switching (stat ''Cloudflare'' (Finite 50)) 50], None)
   \<and> print_results fast_current False = (report_head fast_current @ [AlreadyFastest], None)"
proof -
  have slow: "print_results slow_current False =
     (report_head slow_current @
        [CurrentRank 2, Switching (stat ''Cloudflare'' (Finite 50)) 50], None)"
    using current_comparison [of slow_current "stat ''Cloudflare'' (Finite 50)"
        "[stat ''Current-192.168.1.1'' (Finite 100)]" "stat ''Current-192.168.1.1'' (Finite 100)"
        "[]" 100 50]
    by (simp add: slow_current_valid is_current_examples stat_neq) (simp add: stat_def)
  have fast: "print_results fast_current False = (report_head fast_current @ [AlreadyFastest], None)"
    using current_comparison [of fast_current "stat ''Current-192.168.1.1'' (Finite 20)"
        "[stat ''Cloudflare'' (Finite 50)]" "stat ''Current-192.168.1.1'' (Finite 20)" "[]"]
    by (simp add: fast_current_valid is_current_examples)
  show ?thesis
    using slow fast by (rule conjI)
qed

text \<open>
  Claim C9 as stated fails when the current server is the only valid result: it ranks
  first, and the reporter prints no line about the current DNS, because the comparison is
  made only for more than one valid result.
\<close>

theorem lone_current_counterexample:
  "valid_results lone_current = [stat ''Current-192.168.1.1'' (Finite 20)]
   \<and> is_current (stat ''Current-192.168.1.1'' (Finite 20))
   \<and> print_results lone_current False =
       ([RuleTop, Title, RuleBottom, TableHeader, TableRule,
         TableRow 1 (stat ''Current-192.168.1.1'' (Finite 20)),
         FailedHeader, FailedRow (stat ''Google'' Infinite),
         BestHeader, BestServer (stat ''Current-192.168.1.1'' (Finite 20)),
         BestSummary (stat ''Current-192.168.1.1'' (Finite 20))], None)
   \<and> AlreadyFastest \<notin> set (fst (print_results lone_current False))"
proof -
  have np: "print_results lone_current False = (report_head lone_current, None)"
    by (rule no_comparison) (simp_all add: lone_current_valid, simp add: lone_current_def)
  have rh: "report_head lone_current =
       [RuleTop, Title, RuleBottom, TableHeader, TableRule,
         TableRow 1 (stat ''Current-192.168.1.1'' (Finite 20)),
         FailedHeader, FailedRow (stat ''Google'' Infinite),
         BestHeader, BestServer (stat ''Current-192.168.1.1'' (Finite 20)),
         BestSummary (stat ''Current-192.168.1.1'' (Finite 20))]"
    by (simp add: report_head_def lone_current_valid enumerate_eq_zip)
      (simp add: failed_results_def lone_current_def stat_def)
  show ?thesis
    by (simp add: np rh lone_current_valid is_current_examples)
qed

section \<open>Properties of the Address Validator\<close>

lemma set_splits: "set (splits s) = {(u, v). u @ v = s}"
proof (induction s)
  case Nil
  then show ?case by auto
next
  case (Cons c cs)
  show ?case
  proof (rule set_eqI)
    fix p :: "string \<times> string"
    obtain u v where p: "p = (u, v)" by (cases p)
    show "p \<in> set (splits (c # cs)) \<longleftrightarrow> p \<in> {(u, v). u @ v = c # cs}"
      unfolding p by (cases u) (auto simp: Cons.IH)
  qed
qed

lemma matches_Seq:
  "matches (Seq r1 r2) s = (\<exists>u v. s = u @ v \<and> matches r1 u \<and> matches r2 v)"
  by (auto simp: list_ex_iff set_splits)

lemma matches_Cls: "matches (Cls cs) s = (\<exists>c. s = [c] \<and> c \<in> set cs)"
  by (auto split: list.splits)

lemma matches_Seq_Cls:
  "matches (Seq (Cls cs) r) s = (\<exists>c v. s = c # v \<and> c \<in> set cs \<and> matches r v)"
proof
  assume "matches (Seq (Cls cs) r) s"
  then obtain u v where "s = u @ v" "matches (Cls cs) u" "matches r v"
    unfolding matches_Seq by blast
  then show "\<exists>c v. s = c # v \<and> c \<in> set cs \<and> matches r v"
    unfolding matches_Cls by auto
next
  assume "\<exists>c v. s = c # v \<and> c \<in> set cs \<and> matches r v"
  then obtain c v where "s = [c] @ v" "c \<in> set cs" "matches r v"
    by auto
  then show "matches (Seq (Cls cs) r) s"
    unfolding matches_Seq matches_Cls by blast
qed

lemma matches_rep_Cls:
  "matches (rep m n (Cls cs)) s = (m \<le> length s \<and> length s \<le> n \<and> set s \<subseteq> set cs)"
proof (induction m n "Cls cs" arbitrary: s rule: rep.induct)
  case 1
  then show ?case by auto
next
  case (2 n)
  show ?case
    by (cases s) (auto simp: matches_Seq_Cls "2.hyps" simp del: matches.simps(2,3))
next
  case (3 m n)
  show ?case
    by (cases s) (auto simp: matches_Seq_Cls "3.hyps" simp del: matches.simps(2,3))
next
  case (4 m)
  then show ?case by (auto split: list.splits)
qed

lemma chars_of_rep: "chars_of (rep m n r) \<subseteq> chars_of r"
  by (induction m n r rule: rep.induct) auto

lemma matches_chars: "matches r s \<Longrightarrow> set s \<subseteq> chars_of r"
proof (induction r arbitrary: s)
  case Eps
  then show ?case by simp
next
  case (Cls cs)
  then show ?case by (auto simp: matches_Cls simp del: matches.simps)
next
  case (Seq r1 r2)
  then show ?case by (fastforce simp: matches_Seq simp del: matches.simps)
next
  case (Alt r1 r2)
  then show ?case by (fastforce split: if_splits)
qed

lemma matches_octet: "matches (rep 1 3 digit) g = octet_group g"
proof -
  have "list_all is_digit g = (set g \<subseteq> set digit_chars)"
    by (auto simp: list_all_iff is_digit_def)
  moreover have "(1 \<le> length g) = (g \<noteq> [])"
    by (cases g) simp_all
  ultimately show ?thesis
    unfolding digit_def matches_rep_Cls octet_group_def by simp
qed

lemma matches_octet_dot:
  "matches (Seq (rep 1 3 digit) (Cls ''.'')) w = (\<exists>g. w = g @ ''.'' \<and> octet_group g)"
  unfolding matches_Seq matches_octet matches_Cls by auto

lemma rep_3_3: "rep 3 3 r = Seq r (Seq r (Seq r Eps))"
  by (simp add: eval_nat_numeral)

lemma matches_ipv4_pattern:
  "matches ipv4_pattern s =
    (\<exists>a b c d. s = a @ ''.'' @ b @ ''.'' @ c @ ''.'' @ d
       \<and> octet_group a \<and> octet_group b \<and> octet_group c \<and> octet_group d)"
proof
  assume "matches ipv4_pattern s"
  then obtain u d where s: "s = u @ d" and u: "matches (rep 3 3 (Seq (rep 1 3 digit) (Cls ''.''))) u"
    and d: "octet_group d"
    unfolding ipv4_pattern_def matches_Seq matches_octet by blast
  from u obtain w1 w2 w3 where u3: "u = w1 @ w2 @ w3"
    and w: "matches (Seq (rep 1 3 digit) (Cls ''.'')) w1"
      "matches (Seq (rep 1 3 digit) (Cls ''.'')) w2"
      "matches (Seq (rep 1 3 digit) (Cls ''.'')) w3"
    unfolding rep_3_3 matches_Seq [of _ "Seq _ _"] matches_Seq [of _ Eps] by auto
  from w obtain a b c where "w1 = a @ ''.''" "octet_group a" "w2 = b @ ''.''" "octet_group b"
      "w3 = c @ ''.''" "octet_group c"
    unfolding matches_octet_dot by blast
  then show "\<exists>a b c d. s = a @ ''.'' @ b @ ''.'' @ c @ ''.'' @ d
       \<and> octet_group a \<and> octet_group b \<and> octet_group c \<and> octet_group d"
    using s u3 d by auto
next
  assume "\<exists>a b c d. s = a @ ''.'' @ b @ ''.'' @ c @ ''.'' @ d
       \<and> octet_group a \<and> octet_group b \<and> octet_group c \<and> octet_group d"
  then obtain a b c d where s: "s = a @ ''.'' @ b @ ''.'' @ c @ ''.'' @ d"
    and g: "octet_group a" "octet_group b" "octet_group c" "octet_group d"
    by blast
  have w: "matches (Seq (rep 1 3 digit) (Cls ''.'')) (a @ ''.'')"
    "matches (Seq (rep 1 3 digit) (Cls ''.'')) (b @ ''.'')"
    "matches (Seq (rep 1 3 digit) (Cls ''.'')) (c @ ''.'')"
    unfolding matches_octet_dot using g by auto
  have "matches (Seq (rep 1 3 digit) (Cls ''.'')) (a @ ''.'') \<and>
        (\<exists>u v. (b @ ''.'') @ (c @ ''.'') = u @ v \<and> matches (Seq (rep 1 3 digit) (Cls ''.'')) u
           \<and> (\<exists>u' v'. v = u' @ v' \<and> matches (Seq (rep 1 3 digit) (Cls ''.'')) u' \<and> matches Eps v'))"
    using w by (metis append_Nil2 matches.simps(1))
  then have "matches (rep 3 3 (Seq (rep 1 3 digit) (Cls ''.''))) ((a @ ''.'') @ (b @ ''.'') @ (c @ ''.''))"
    unfolding rep_3_3 matches_Seq [of _ "Seq _ _"] matches_Seq [of _ Eps] by blast
  then have "\<exists>u v. s = u @ v \<and> matches (rep 3 3 (Seq (rep 1 3 digit) (Cls ''.''))) u \<and> octet_group v"
    using g(4) s by (intro exI [of _ "(a @ ''.'') @ (b @ ''.'') @ (c @ ''.'')"] exI [of _ d]) simp
  then show "matches ipv4_pattern s"
    unfolding ipv4_pattern_def matches_Seq matches_octet .
qed

lemma split_on_from_no_sep: "sep \<notin> set s \<Longrightarrow> split_on_from sep cur s = [cur @ s]"
  by (induction s arbitrary: cur) auto

lemma split_on_from_append:
  "sep \<notin> set g \<Longrightarrow> split_on_from sep cur (g @ sep # rest) = (cur @ g) # split_on_from sep [] rest"
  by (induction g arbitrary: cur) auto

lemma split_on_from_ne: "split_on_from sep cur s \<noteq> []"
  by (induction s arbitrary: cur) auto

lemma join_split_on_from: "join sep (split_on_from sep cur s) = cur @ s"
proof (induction s arbitrary: cur)
  case Nil
  then show ?case by simp
next
  case (Cons c cs)
  show ?case
  proof (cases "c = sep")
    case True
    obtain w ws where w: "split_on_from sep [] cs = w # ws"
      using split_on_from_ne [of sep "[]" cs] by (cases "split_on_from sep [] cs") auto
    have "join sep (w # ws) = cs"
      using Cons.IH [of "[]"] w by simp
    then show ?thesis
      using True w by simp
  next
    case False
    then show ?thesis
      using Cons.IH [of "cur @ [c]"] by simp
  qed
qed

lemma split_on_four:
  assumes "length (split_on sep s) = 4"
  shows "\<exists>a b c d. split_on sep s = [a, b, c, d] \<and> s = a @ sep # b @ sep # c @ sep # d"
proof -
  obtain a b c d where l: "split_on sep s = [a, b, c, d]"
    using assms by (auto simp: length_Suc_conv eval_nat_numeral)
  have "join sep (split_on sep s) = s"
    unfolding split_on_def by (simp add: join_split_on_from)
  then show ?thesis
    using l by auto
qed

lemma dot_not_digit: "CHR ''.'' \<notin> set digit_chars" "CHR 0x0A \<notin> set digit_chars"
  by (simp_all add: digit_chars_def)

lemma octet_group_chars: "octet_group g \<Longrightarrow> set g \<subseteq> set digit_chars"
  by (auto simp: octet_group_def list_all_iff is_digit_def)

lemma octet_group_no_dot: "octet_group g \<Longrightarrow> CHR ''.'' \<notin> set g"
  using octet_group_chars dot_not_digit by blast

lemma split_on_ipv4:
  assumes "CHR ''.'' \<notin> set a" "CHR ''.'' \<notin> set b" "CHR ''.'' \<notin> set c" "CHR ''.'' \<notin> set d"
  shows "split_on CHR ''.'' (a @ ''.'' @ b @ ''.'' @ c @ ''.'' @ d) = [a, b, c, d]"
  using assms
  by (simp add: split_on_def split_on_from_append split_on_from_no_sep)

lemma matches_ipv4_split:
  "matches ipv4_pattern s =
     (length (split_on CHR ''.'' s) = 4 \<and> list_all octet_group (split_on CHR ''.'' s))"
proof
  assume "matches ipv4_pattern s"
  then obtain a b c d where s: "s = a @ ''.'' @ b @ ''.'' @ c @ ''.'' @ d"
    and g: "octet_group a" "octet_group b" "octet_group c" "octet_group d"
    unfolding matches_ipv4_pattern by blast
  have "split_on CHR ''.'' s = [a, b, c, d]"
    unfolding s using g by (intro split_on_ipv4 octet_group_no_dot)
  then show "length (split_on CHR ''.'' s) = 4 \<and> list_all octet_group (split_on CHR ''.'' s)"
    using g by simp
next
  assume r: "length (split_on CHR ''.'' s) = 4 \<and> list_all octet_group (split_on CHR ''.'' s)"
  then obtain a b c d where l: "split_on CHR ''.'' s = [a, b, c, d]"
    and s: "s = a @ CHR ''.'' # b @ CHR ''.'' # c @ CHR ''.'' # d"
    using split_on_four by blast
  have "octet_group a \<and> octet_group b \<and> octet_group c \<and> octet_group d"
    using r l by simp
  then show "matches ipv4_pattern s"
    unfolding matches_ipv4_pattern using s by auto
qed

lemma digit_not_space: "is_digit c \<Longrightarrow> \<not> is_space c"
  by (auto simp: is_digit_def digit_chars_def is_space_def)

lemma newline_is_space: "is_space (CHR 0x0A)"
  by (simp add: is_space_def)

lemma strip_digits:
  assumes "list_all is_digit g"
  shows "strip g = g"
proof (cases g)
  case Nil
  then show ?thesis by (simp add: strip_def)
next
  case (Cons c cs)
  then have ne: "g \<noteq> []"
    by simp
  have "\<not> is_space (hd g)" "\<not> is_space (last g)"
    using assms ne by (auto simp: list_all_iff intro!: digit_not_space)
  then have "dropWhile is_space g = g" "dropWhile is_space (rev g) = rev g"
    using ne by (simp_all add: dropWhile_eq_self_iff hd_rev)
  then show ?thesis
    by (simp add: strip_def)
qed

lemma strip_digits_newline:
  assumes "list_all is_digit g" and "g \<noteq> []"
  shows "strip (g @ [CHR 0x0A]) = g"
proof -
  have "\<not> is_space (hd g)" "\<not> is_space (last g)"
    using assms by (auto simp: list_all_iff intro!: digit_not_space)
  then have "dropWhile is_space (g @ [CHR 0x0A]) = g @ [CHR 0x0A]"
    "dropWhile is_space (rev g) = rev g"
    using assms(2) by (simp_all add: dropWhile_eq_self_iff hd_rev hd_append)
  then show ?thesis
    by (simp add: strip_def newline_is_space)
qed

lemma py_int_octet: "octet_group g \<Longrightarrow> py_int g = Inr (decimal g)"
  by (simp add: py_int_def octet_group_def strip_digits)

lemma py_int_octet_newline: "octet_group g \<Longrightarrow> py_int (g @ [CHR 0x0A]) = Inr (decimal g)"
  by (simp add: py_int_def octet_group_def strip_digits_newline)

lemma digit_value_range: "is_digit c \<Longrightarrow> 0 \<le> digit_value c \<and> digit_value c \<le> 9"
  by (auto simp: is_digit_def digit_chars_def digit_value_def)

lemma foldl_decimal_nonneg:
  "list_all is_digit g \<Longrightarrow> 0 \<le> a \<Longrightarrow> 0 \<le> foldl (\<lambda>a c. 10 * a + digit_value c) a g"
proof (induction g arbitrary: a)
  case Nil
  then show ?case by simp
next
  case (Cons c g)
  have "0 \<le> 10 * a + digit_value c"
    using Cons.prems digit_value_range [of c] by simp
  then show ?case
    using Cons by simp
qed

lemma decimal_nonneg: "octet_group g \<Longrightarrow> 0 \<le> decimal g"
  by (simp add: decimal_def octet_group_def foldl_decimal_nonneg)

lemma all_octets_groups:
  "list_all octet_group gs \<Longrightarrow> all_octets gs = Inr (list_all (\<lambda>g. decimal g \<le> 255) gs)"
proof (induction gs)
  case Nil
  then show ?case by simp
next
  case (Cons g gs)
  then show ?case
    by (simp add: py_int_octet decimal_nonneg)
qed

lemma all_octets_newline:
  assumes "octet_group a" "octet_group b" "octet_group c" "octet_group d"
  shows "all_octets [a, b, c, d @ [CHR 0x0A]] = all_octets [a, b, c, d]"
  using assms by (simp add: py_int_octet py_int_octet_newline decimal_nonneg)

lemma chars_ipv4_pattern: "chars_of ipv4_pattern \<subseteq> insert CHR ''.'' (set digit_chars)"
  using chars_of_rep [of 3 3 "Seq (rep 1 3 digit) (Cls ''.'')"] chars_of_rep [of 1 3 digit]
  by (auto simp: ipv4_pattern_def digit_def)

lemma chars_ipv6_pattern: "chars_of ipv6_pattern \<subseteq> insert CHR '':'' (set hex_chars)"
  using chars_of_rep [of 2 7 "Seq (rep 0 4 hexdigit) (Cls '':'')"] chars_of_rep [of 0 4 hexdigit]
  by (auto simp: ipv6_pattern_def hexdigit_def)

lemma newline_not_in_patterns:
  "CHR 0x0A \<notin> chars_of ipv4_pattern" "CHR 0x0A \<notin> chars_of ipv6_pattern"
proof -
  have "CHR 0x0A \<notin> insert CHR ''.'' (set digit_chars)"
    by (simp add: digit_chars_def)
  then show "CHR 0x0A \<notin> chars_of ipv4_pattern"
    using chars_ipv4_pattern by blast
  have "CHR 0x0A \<notin> insert CHR '':'' (set hex_chars)"
    by (simp add: hex_chars_def)
  then show "CHR 0x0A \<notin> chars_of ipv6_pattern"
    using chars_ipv6_pattern by blast
qed

lemma dot_not_in_ipv6: "matches ipv6_pattern s \<Longrightarrow> CHR ''.'' \<notin> set s"
proof -
  assume "matches ipv6_pattern s"
  then have "set s \<subseteq> insert CHR '':'' (set hex_chars)"
    using matches_chars chars_ipv6_pattern by blast
  moreover have "CHR ''.'' \<notin> insert CHR '':'' (set hex_chars)"
    by (simp add: hex_chars_def)
  ultimately show ?thesis
    by blast
qed

lemma rep_2_7: "rep 2 7 r = Seq r (Seq r (rep 0 5 r))"
  by (simp add: eval_nat_numeral)

lemma colon_in_ipv6: "matches ipv6_pattern s \<Longrightarrow> CHR '':'' \<in> set s"
proof -
  assume "matches ipv6_pattern s"
  then obtain u v where "s = u @ v" "matches (rep 2 7 (Seq (rep 0 4 hexdigit) (Cls '':''))) u"
    unfolding ipv6_pattern_def matches_Seq by blast
  moreover from this obtain w w' where "u = w @ w'" "matches (Seq (rep 0 4 hexdigit) (Cls '':'')) w"
    unfolding rep_2_7 matches_Seq [of "Seq (rep 0 4 hexdigit) (Cls '':'')"] by blast
  moreover from this obtain h where "w = h @ '':''"
    unfolding matches_Seq matches_Cls by auto
  ultimately show ?thesis
    by simp
qed

lemma re_match_chomp:
  assumes "CHR 0x0A \<notin> chars_of r"
  shows "re_match r s = matches r (chomp s)"
proof (cases "matches r s")
  case True
  then have "CHR 0x0A \<notin> set s"
    using matches_chars assms by blast
  then have "\<not> (s \<noteq> [] \<and> last s = CHR 0x0A)"
    using last_in_set [of s] by metis
  then have "chomp s = s"
    unfolding chomp_def by (simp only: if_False)
  then show ?thesis
    using True by (simp add: re_match_def)
next
  case False
  then show ?thesis
    by (simp add: re_match_def chomp_def)
qed

lemma chomp_cases: "s = chomp s \<or> s = chomp s @ [CHR 0x0A]"
  by (auto simp: chomp_def) (metis append_butlast_last_id)

lemma validate_ip_address_eq:
  "validate_ip_address s = Inr (ipv4_ok (chomp s) \<or> matches ipv6_pattern (chomp s))"
proof (cases "matches ipv4_pattern (chomp s)")
  case True
  then obtain a b c d where t: "chomp s = a @ ''.'' @ b @ ''.'' @ c @ ''.'' @ d"
    and g: "octet_group a" "octet_group b" "octet_group c" "octet_group d"
    unfolding matches_ipv4_pattern by blast
  have nd: "CHR ''.'' \<notin> set a" "CHR ''.'' \<notin> set b" "CHR ''.'' \<notin> set c" "CHR ''.'' \<notin> set d"
    using g by (simp_all add: octet_group_no_dot)
  have sp: "split_on CHR ''.'' (chomp s) = [a, b, c, d]"
    unfolding t using nd by (rule split_on_ipv4)
  have oct: "all_octets (split_on CHR ''.'' s) = all_octets [a, b, c, d]"
  proof (cases "s = chomp s")
    case True
    then show ?thesis using sp by simp
  next
    case False
    then have "s = a @ ''.'' @ b @ ''.'' @ c @ ''.'' @ (d @ [CHR 0x0A])"
      using chomp_cases [of s] t by simp
    moreover have "CHR ''.'' \<notin> set (d @ [CHR 0x0A])"
      using nd by simp
    ultimately have "split_on CHR ''.'' s = [a, b, c, d @ [CHR 0x0A]]"
      using nd split_on_ipv4 [of a b c "d @ [CHR 0x0A]"] by simp
    then show ?thesis
      using g by (simp only: all_octets_newline)
  qed
  have "CHR ''.'' \<in> set (chomp s)"
    unfolding t by simp
  then have no6: "\<not> matches ipv6_pattern (chomp s)"
    using dot_not_in_ipv6 by blast
  have "all_octets [a, b, c, d] = Inr (list_all (\<lambda>g. decimal g \<le> 255) [a, b, c, d])"
    using g by (intro all_octets_groups) simp
  then have "validate_ip_address s = Inr (list_all (\<lambda>g. decimal g \<le> 255) [a, b, c, d])"
    using True by (simp add: validate_ip_address_def re_match_chomp newline_not_in_patterns oct)
  moreover have "ipv4_ok (chomp s) = list_all (\<lambda>g. decimal g \<le> 255) [a, b, c, d]"
    using g by (simp add: ipv4_ok_def sp)
  ultimately show ?thesis
    using no6 by simp
next
  case False
  then have "\<not> ipv4_ok (chomp s)"
    unfolding matches_ipv4_split ipv4_ok_def by (auto simp: list_all_iff)
  then show ?thesis
    using False by (simp add: validate_ip_address_def re_match_chomp newline_not_in_patterns)
qed




lemma split_on_newline_end:
  assumes "split_on CHR ''.'' t = [a, b, c, d]"
    and "t = a @ CHR ''.'' # b @ CHR ''.'' # c @ CHR ''.'' # d"
    and "CHR ''.'' \<notin> set a" "CHR ''.'' \<notin> set b" "CHR ''.'' \<notin> set c" "CHR ''.'' \<notin> set d"
  shows "split_on CHR ''.'' (t @ [CHR 0x0A]) = [a, b, c, d @ [CHR 0x0A]]"
proof -
  have e: "t @ [CHR 0x0A] = a @ ''.'' @ b @ ''.'' @ c @ ''.'' @ (d @ [CHR 0x0A])"
    unfolding assms(2) by simp
  have nd: "CHR ''.'' \<notin> set (d @ [CHR 0x0A])"
    using assms(6) by simp
  show ?thesis
    unfolding e by (rule split_on_ipv4 [OF assms(3) assms(4) assms(5) nd])
qed

lemma ipv4_ok_parts:
  assumes "ipv4_ok (chomp s)" and "g \<in> set (split_on CHR ''.'' s)"
  shows "\<exists>v. py_int g = Inr v \<and> v \<le> 255"
proof -
  obtain t where t: "chomp s = t" and s: "s = t \<or> s = t @ [CHR 0x0A]"
    using chomp_cases by blast
  have ok: "ipv4_ok t"
    using assms(1) unfolding t .
  obtain a b c d where sp: "split_on CHR ''.'' t = [a, b, c, d]"
    and tt: "t = a @ CHR ''.'' # b @ CHR ''.'' # c @ CHR ''.'' # d"
    using ok split_on_four unfolding ipv4_ok_def by blast
  have g: "octet_group a" "octet_group b" "octet_group c" "octet_group d"
    and v: "decimal a \<le> 255" "decimal b \<le> 255" "decimal c \<le> 255" "decimal d \<le> 255"
    using ok unfolding ipv4_ok_def sp by simp_all
  have nd: "CHR ''.'' \<notin> set a" "CHR ''.'' \<notin> set b" "CHR ''.'' \<notin> set c" "CHR ''.'' \<notin> set d"
    using g by (simp_all add: octet_group_no_dot)
  have "split_on CHR ''.'' s = [a, b, c, d] \<or> split_on CHR ''.'' s = [a, b, c, d @ [CHR 0x0A]]"
    using s sp split_on_newline_end [OF sp tt nd] by auto
  then have "g = a \<or> g = b \<or> g = c \<or> g = d \<or> g = d @ [CHR 0x0A]"
    using assms(2) by auto
  then show ?thesis
    using g v by (auto simp: py_int_octet py_int_octet_newline)
qed




lemma decimal_examples: "decimal ''8'' = 8" "decimal ''0008'' = 8" "decimal ''256'' = 256"
  by (simp_all add: decimal_def digit_value_def)

lemma chomp_examples:
  "chomp ''8.8.8.8'' = ''8.8.8.8''" "chomp ''8.8.8.256'' = ''8.8.8.256''"
  "chomp ''8.8.8.8\<newline>'' = ''8.8.8.8''" "chomp ''0008.8.8.8'' = ''0008.8.8.8''"
  by (simp_all add: chomp_def)




section \<open>Properties of Resolver Discovery\<close>

lemma consider_server_eq: "consider_server s st = (None, add_server s st)"
proof -
  obtain ok where "validate_ip_address s = Inr ok"
    unfolding validate_ip_address_eq by blast
  then show ?thesis
    by (auto simp: consider_server_def add_server_def accepted_def)
qed

lemma for_each_fold:
  assumes "\<And>x st. body x st = (None, fold add_server (toks x) st)"
  shows "for_each body xs st = (None, fold add_server (concat (map toks xs)) st)"
  by (induction xs arbitrary: st) (simp_all add: assms)

lemma for_each_consider: "for_each consider_server toks st = (None, fold add_server toks st)"
  using for_each_fold [of consider_server "\<lambda>x. [x]" toks st]
  by (simp add: consider_server_eq)

lemma resolv_conf_line_eq:
  "resolv_conf_line line st = (None, fold add_server (resolv_conf_tokens line) st)"
  by (simp add: resolv_conf_line_def resolv_conf_tokens_def consider_server_eq Let_def)

lemma nmcli_line_eq: "nmcli_line line st = (None, fold add_server (nmcli_tokens line) st)"
  by (simp add: nmcli_line_def nmcli_tokens_def consider_server_eq split: option.split)

lemma scan_following_eq:
  "scan_following ls st = (None, fold add_server (following_tokens ls) st)"
  by (induction ls arbitrary: st) (simp_all add: for_each_consider Let_def)

lemma scan_status_eq: "scan_status ls st = (None, fold add_server (status_tokens ls) st)"
  by (induction ls arbitrary: st)
    (simp_all add: for_each_consider scan_following_eq Let_def split: option.split)

lemma status_source_eq:
  "status_source run st = fold add_server (command_tokens status_tokens run) st"
  by (cases run) (simp_all add: status_source_def command_tokens_def scan_status_eq)

lemma nmcli_source_eq:
  "nmcli_source run st
     = fold add_server (command_tokens (\<lambda>lines. concat (map nmcli_tokens lines)) run) st"
  by (cases run)
    (simp_all add: nmcli_source_def command_tokens_def for_each_fold [of nmcli_line nmcli_tokens]
      nmcli_line_eq)

lemma get_current_dns_servers_fold:
  "get_current_dns_servers src = fst (fold add_server (discovered_tokens src) ([], {}))"
proof -
  have r: "(case resolv_conf src of
              None \<Rightarrow> ([], {})
            | Some lines \<Rightarrow> snd (for_each resolv_conf_line lines ([], {})))
      = fold add_server
          (case resolv_conf src of None \<Rightarrow> [] | Some lines \<Rightarrow> concat (map resolv_conf_tokens lines))
          ([], {})"
    by (cases "resolv_conf src")
      (simp_all add: for_each_fold [of resolv_conf_line resolv_conf_tokens] resolv_conf_line_eq)
  show ?thesis
    unfolding get_current_dns_servers_def Let_def r status_source_eq nmcli_source_eq
      discovered_tokens_def
    by simp
qed

lemma fold_add_server:
  "fold add_server toks (acc, set acc)
     = (fold insert_new (filter accepted toks) acc,
        set (fold insert_new (filter accepted toks) acc))"
proof (induction toks arbitrary: acc)
  case Nil
  then show ?case by simp
next
  case (Cons t toks)
  show ?case
  proof (cases "accepted t \<and> t \<notin> set acc")
    case True
    then have "add_server t (acc, set acc) = (acc @ [t], set (acc @ [t]))"
      by (simp add: add_server_def)
    then show ?thesis
      using True Cons.IH [of "acc @ [t]"] by (simp add: insert_new_def)
  next
    case False
    then have "add_server t (acc, set acc) = (acc, set acc)"
      by (simp add: add_server_def)
    then show ?thesis
      using False Cons.IH [of acc] by (auto simp: insert_new_def)
  qed
qed

lemma get_current_dns_servers_eq:
  "get_current_dns_servers src = first_occurrences (filter accepted (discovered_tokens src))"
  using fold_add_server [of "discovered_tokens src" "[]"]
  by (simp add: get_current_dns_servers_fold first_occurrences_def)

lemma distinct_fold_insert_new: "distinct acc \<Longrightarrow> distinct (fold insert_new toks acc)"
  by (induction toks arbitrary: acc) (simp_all add: insert_new_def)

lemma set_fold_insert_new: "set (fold insert_new toks acc) = set acc \<union> set toks"
  by (induction toks arbitrary: acc) (auto simp: insert_new_def)

lemma is_digit_cases:
  "is_digit c \<Longrightarrow>
     c = CHR ''0'' \<or> c = CHR ''1'' \<or> c = CHR ''2'' \<or> c = CHR ''3'' \<or> c = CHR ''4''
     \<or> c = CHR ''5'' \<or> c = CHR ''6'' \<or> c = CHR ''7'' \<or> c = CHR ''8'' \<or> c = CHR ''9''"
  by (simp add: is_digit_def digit_chars_def)

lemma digit_value_literals:
  "digit_value CHR ''0'' = 0" "digit_value CHR ''1'' = 1" "digit_value CHR ''2'' = 2"
  "digit_value CHR ''3'' = 3" "digit_value CHR ''4'' = 4" "digit_value CHR ''5'' = 5"
  "digit_value CHR ''6'' = 6" "digit_value CHR ''7'' = 7" "digit_value CHR ''8'' = 8"
  "digit_value CHR ''9'' = 9"
  by (simp_all add: digit_value_def)

lemma digit_value_cases:
  "is_digit c \<Longrightarrow> digit_value c = 1 \<Longrightarrow> c = CHR ''1''"
  "is_digit c \<Longrightarrow> digit_value c = 2 \<Longrightarrow> c = CHR ''2''"
  "is_digit c \<Longrightarrow> digit_value c = 7 \<Longrightarrow> c = CHR ''7''"
  using is_digit_cases [of c] by (auto simp: digit_value_literals)

lemma digits_127:
  fixes x y z :: int
  assumes "100 * x + 10 * y + z = 127" "0 \<le> x" "x \<le> 9" "0 \<le> y" "y \<le> 9" "0 \<le> z" "z \<le> 9"
  shows "x = 1 \<and> y = 2 \<and> z = 7"
proof -
  have x: "x = 1"
    using assms by linarith
  then have y: "y = 2"
    using assms by linarith
  then show ?thesis
    using x assms by linarith
qed

lemma octet_127:
  assumes "octet_group g" and "decimal g = 127"
  shows "g = ''127''"
proof -
  have len: "g \<noteq> []" "length g \<le> 3" and dig: "\<forall>c\<in>set g. is_digit c"
    using assms(1) by (simp_all add: octet_group_def list_all_iff)
  consider x where "g = [x]" | x y where "g = [x, y]" | x y z where "g = [x, y, z]"
  proof (cases g)
    case Nil
    then show ?thesis using len by simp
  next
    case (Cons x g1)
    note g = this
    show ?thesis
    proof (cases g1)
      case Nil
      then show ?thesis using g that(1) by simp
    next
      case (Cons y g2)
      note g1 = this
      show ?thesis
      proof (cases g2)
        case Nil
        then show ?thesis using g g1 that(2) by simp
      next
        case (Cons z g3)
        then have "g3 = []"
          using len g g1 by simp
        then show ?thesis using g g1 Cons that(3) by simp
      qed
    qed
  qed
  then show ?thesis
  proof cases
    case 1
    then have "digit_value x = 127" and "is_digit x"
      using assms(2) dig by (simp_all add: decimal_def)
    then show ?thesis
      using digit_value_range [of x] by linarith
  next
    case 2
    then have "10 * digit_value x + digit_value y = 127" and "is_digit x" and "is_digit y"
      using assms(2) dig by (simp_all add: decimal_def)
    then show ?thesis
      using digit_value_range [of x] digit_value_range [of y] by linarith
  next
    case 3
    then have e: "100 * digit_value x + 10 * digit_value y + digit_value z = 127"
      and d: "is_digit x" "is_digit y" "is_digit z"
      using assms(2) dig by (simp_all add: decimal_def)
    have r: "0 \<le> digit_value x \<and> digit_value x \<le> 9" "0 \<le> digit_value y \<and> digit_value y \<le> 9"
      "0 \<le> digit_value z \<and> digit_value z \<le> 9"
      using d by (simp_all only: digit_value_range)
    have v: "digit_value x = 1 \<and> digit_value y = 2 \<and> digit_value z = 7"
      using e r by (intro digits_127) simp_all
    have "x = CHR ''1''"
      using d(1) v by (intro digit_value_cases(1)) simp_all
    moreover have "y = CHR ''2''"
      using d(2) v by (intro digit_value_cases(2)) simp_all
    moreover have "z = CHR ''7''"
      using d(3) v by (intro digit_value_cases(3)) simp_all
    ultimately show ?thesis
      unfolding 3 by simp
  qed
qed

lemma loopback_starts_with_127:
  assumes "in_loopback_net s"
  shows "startswith s ''127.''"
proof -
  obtain a b c d where sp: "split_on CHR ''.'' s = [a, b, c, d]"
    and s: "s = a @ CHR ''.'' # b @ CHR ''.'' # c @ CHR ''.'' # d"
    using assms split_on_four unfolding in_loopback_net_def ipv4_ok_def by blast
  have "octet_group a" "decimal a = 127"
    using assms unfolding in_loopback_net_def ipv4_ok_def sp by simp_all
  then have "a = ''127''"
    by (rule octet_127)
  then show ?thesis
    unfolding s by (simp add: startswith_def)
qed

text \<open>
  Claim C1, as amended. The list that discovery returns holds the first occurrence of each
  accepted candidate, in the order of discovery; its elements are pairwise distinct, pass
  the validator and do not start with \<^verbatim>\<open>127.\<close>, so none is an IPv4 address in
  127.0.0.0/8.
\<close>

theorem discovery_unique_no_ipv4_loopback:
  "get_current_dns_servers src = first_occurrences (filter accepted (discovered_tokens src))
   \<and> distinct (get_current_dns_servers src)
   \<and> (\<forall>s \<in> set (get_current_dns_servers src).
         validate_ip_address s = Inr True \<and> \<not> startswith s ''127.'' \<and> \<not> in_loopback_net s)"
proof (intro conjI ballI)
  show "get_current_dns_servers src = first_occurrences (filter accepted (discovered_tokens src))"
    by (rule get_current_dns_servers_eq)
  show "distinct (get_current_dns_servers src)"
    unfolding get_current_dns_servers_eq first_occurrences_def
    by (rule distinct_fold_insert_new) simp
next
  fix s assume "s \<in> set (get_current_dns_servers src)"
  then have a: "accepted s"
    unfolding get_current_dns_servers_eq first_occurrences_def set_fold_insert_new by simp
  then show "validate_ip_address s = Inr True" "\<not> startswith s ''127.''"
    by (simp_all add: accepted_def)
  then show "\<not> in_loopback_net s"
    using loopback_starts_with_127 by blast
qed

lemma strip_examples:
  "strip ''nameserver 1.1.1.1\<newline>'' = ''nameserver 1.1.1.1''"
  "strip ''nameserver 127.0.0.53\<newline>'' = ''nameserver 127.0.0.53''"
  "strip ''nameserver ::1\<newline>'' = ''nameserver ::1''"
  by (simp_all add: strip_def is_space_def)

lemma split_ws_examples:
  "split_ws ''nameserver 1.1.1.1'' = [''nameserver'', ''1.1.1.1'']"
  "split_ws ''nameserver 127.0.0.53'' = [''nameserver'', ''127.0.0.53'']"
  "split_ws ''nameserver ::1'' = [''nameserver'', ''::1'']"
  by (simp_all add: split_ws_def is_space_def)

lemma resolv_conf_tokens_examples:
  "resolv_conf_tokens ''nameserver 1.1.1.1\<newline>'' = [''1.1.1.1'']"
  "resolv_conf_tokens ''nameserver 127.0.0.53\<newline>'' = [''127.0.0.53'']"
  "resolv_conf_tokens ''nameserver ::1\<newline>'' = [''::1'']"
  by (simp_all add: resolv_conf_tokens_def strip_examples split_ws_examples startswith_def)

lemma accepted_examples:
  "accepted ''1.1.1.1''" "\<not> accepted ''127.0.0.53''" "accepted ''::1''"
proof -
  have "ipv4_ok ''1.1.1.1''"
    by (simp add: ipv4_ok_def split_on_def octet_group_def is_digit_def digit_chars_def
        decimal_def digit_value_def)
  then show "accepted ''1.1.1.1''"
    by (simp add: accepted_def validate_ip_address_eq chomp_def startswith_def)
  show "\<not> accepted ''127.0.0.53''"
    by (simp add: accepted_def startswith_def)
  have "matches ipv6_pattern ''::1''"
    by (simp add: ipv6_pattern_def hexdigit_def hex_chars_def eval_nat_numeral)
  then show "accepted ''::1''"
    by (simp add: accepted_def validate_ip_address_eq chomp_def startswith_def)
qed

lemma three_sources_tokens:
  "discovered_tokens three_sources
     = [''127.0.0.53'', ''10.0.0.1'', ''9.9.9.9'', ''10.0.0.1'', ''1.1.1.1'']"
  by (simp add: discovered_tokens_def three_sources_def resolv_conf_tokens_def
      command_tokens_def nmcli_tokens_def split_on_def strip_def is_space_def split_ws_def
      startswith_def after_first_def)

lemma accepted_more: "accepted ''10.0.0.1''" "accepted ''9.9.9.9''"
proof -
  have "ipv4_ok ''10.0.0.1''" "ipv4_ok ''9.9.9.9''"
    by (simp_all add: ipv4_ok_def split_on_def octet_group_def is_digit_def digit_chars_def
        decimal_def digit_value_def)
  then show "accepted ''10.0.0.1''" "accepted ''9.9.9.9''"
    by (simp_all add: accepted_def validate_ip_address_eq chomp_def startswith_def)
qed

theorem discovery_unique_no_ipv4_loopback_witness:
  "get_current_dns_servers spec_example = [''1.1.1.1'']
   \<and> get_current_dns_servers three_sources = [''10.0.0.1'', ''9.9.9.9'', ''1.1.1.1'']
   \<and> \<not> in_loopback_net ''1.1.1.1''"
proof -
  have t: "discovered_tokens spec_example = [''1.1.1.1'', ''1.1.1.1'', ''127.0.0.53'']"
    by (simp add: discovered_tokens_def spec_example_def resolv_conf_tokens_examples
        command_tokens_def)
  have f: "first_occurrences (filter accepted (discovered_tokens spec_example)) = [''1.1.1.1'']"
    unfolding t by (simp add: accepted_examples first_occurrences_def insert_new_def)
  have g: "first_occurrences (filter accepted (discovered_tokens three_sources))
      = [''10.0.0.1'', ''9.9.9.9'', ''1.1.1.1'']"
    unfolding three_sources_tokens
    by (simp add: accepted_examples accepted_more first_occurrences_def insert_new_def)
  have r: "get_current_dns_servers spec_example = [''1.1.1.1'']"
    using discovery_unique_no_ipv4_loopback [of spec_example] f by simp
  have r3: "get_current_dns_servers three_sources = [''10.0.0.1'', ''9.9.9.9'', ''1.1.1.1'']"
    using discovery_unique_no_ipv4_loopback [of three_sources] g by simp
  have "\<not> in_loopback_net ''1.1.1.1''"
    using discovery_unique_no_ipv4_loopback [of spec_example] r by simp
  then show ?thesis
    using r r3 by simp
qed

theorem ipv6_loopback_counterexample:
  "get_current_dns_servers ipv6_loopback_conf = [''::1'']"
proof -
  have t: "discovered_tokens ipv6_loopback_conf = [''::1'']"
    by (simp add: discovered_tokens_def ipv6_loopback_conf_def resolv_conf_tokens_examples
        command_tokens_def)
  show ?thesis
    unfolding get_current_dns_servers_eq t
    by (simp add: accepted_examples first_occurrences_def insert_new_def)
qed

section \<open>Properties of the Orchestrator\<close>

lemma custom_loop_eq:
  "custom_loop servers st =
     (None, fst st @ map InvalidAddress [a \<leftarrow> servers. validate_ip_address a \<noteq> Inr True],
      snd st @ map (\<lambda>a. (''Custom-'' @ a, a)) [a \<leftarrow> servers. validate_ip_address a = Inr True])"
proof (induction servers arbitrary: st)
  case Nil
  then show ?case by simp
next
  case (Cons a servers)
  show ?case
    by (simp add: Cons.IH validate_ip_address_eq)
qed

lemma servers_to_test_eq:
  "servers_to_test current_dns test_current test_public custom_servers top3_only =
     (None,
      map InvalidAddress
        [a \<leftarrow> (case custom_servers of None \<Rightarrow> [] | Some servers \<Rightarrow> servers).
           validate_ip_address a \<noteq> Inr True],
      ordered_server_list current_dns test_current test_public
        (case custom_servers of None \<Rightarrow> [] | Some servers \<Rightarrow> servers) top3_only)"
  by (simp add: servers_to_test_def ordered_server_list_def custom_loop_eq Let_def
      split: option.split)

lemma benchmark_calls_append:
  "benchmark_calls (xs @ ys) = benchmark_calls xs @ benchmark_calls ys"
  by (induction xs rule: benchmark_calls.induct) simp_all

lemma bench_loop_trace:
  "\<exists>evs. fst (bench_loop h servers st) = fst st @ evs
     \<and> NoToolError \<notin> set evs \<and> InstallHint \<notin> set evs \<and> NoServers \<notin> set evs
     \<and> benchmark_calls evs = take (length (benchmark_calls evs)) servers
     \<and> ((\<forall>(nm, server') \<in> set servers. attempts h server' nm \<noteq> KeyboardInterrupt)
          \<longrightarrow> benchmark_calls evs = servers)"
proof (induction servers arbitrary: st)
  case Nil
  then show ?case by simp
next
  case (Cons p servers)
  obtain nm server' where p: "p = (nm, server')"
    by (cases p)
  define out where
    "out = fst st @ (if \<not> verbose h then [ProgressDot] else []) @ [BenchmarkCall nm server']"
  show ?case
  proof (cases "attempts h server' nm")
    case (Completed completed)
    obtain evs where e:
      "fst (bench_loop h servers (out, snd st @ [benchmark_server completed server' (Some nm)]))
         = out @ evs"
      "NoToolError \<notin> set evs" "InstallHint \<notin> set evs" "NoServers \<notin> set evs"
      "benchmark_calls evs = take (length (benchmark_calls evs)) servers"
      "(\<forall>(nm, server') \<in> set servers. attempts h server' nm \<noteq> KeyboardInterrupt)
          \<longrightarrow> benchmark_calls evs = servers"
      using Cons.IH [of "(out, snd st @ [benchmark_server completed server' (Some nm)])"]
      by auto
    show ?thesis
      using e Completed
      by (intro exI [of _ "(if \<not> verbose h then [ProgressDot] else [])
            @ [BenchmarkCall nm server'] @ evs"])
        (simp add: p out_def [symmetric] benchmark_calls_append)
  next
    case KeyboardInterrupt
    show ?thesis
      using KeyboardInterrupt
      by (intro exI [of _ "(if \<not> verbose h then [ProgressDot] else [])
            @ [BenchmarkCall nm server', Interrupted]"])
        (simp add: p benchmark_calls_append)
  next
    case (Raised e')
    obtain evs where e:
      "fst (bench_loop h servers (out @ (if verbose h then [FailedToTest nm e'] else []), snd st))
         = (out @ (if verbose h then [FailedToTest nm e'] else [])) @ evs"
      "NoToolError \<notin> set evs" "InstallHint \<notin> set evs" "NoServers \<notin> set evs"
      "benchmark_calls evs = take (length (benchmark_calls evs)) servers"
      "(\<forall>(nm, server') \<in> set servers. attempts h server' nm \<noteq> KeyboardInterrupt)
          \<longrightarrow> benchmark_calls evs = servers"
      using Cons.IH [of "(out @ (if verbose h then [FailedToTest nm e'] else []), snd st)"]
      by auto
    show ?thesis
      using e Raised
      by (intro exI [of _ "(if \<not> verbose h then [ProgressDot] else [])
            @ [BenchmarkCall nm server'] @ (if verbose h then [FailedToTest nm e'] else [])
            @ evs"])
        (simp add: p out_def [symmetric] benchmark_calls_append)
  qed
qed

lemma ordered_server_list_current:
  "ordered_server_list (if test_current then current_dns else []) test_current test_public
       custom top3_only
     = ordered_server_list current_dns test_current test_public custom top3_only"
  by (simp add: ordered_server_list_def)

lemma benchmark_calls_warnings: "benchmark_calls (map InvalidAddress xs) = []"
  by (induction xs) simp_all

lemma benchmark_calls_current:
  "benchmark_calls (map (\<lambda>(i, server'). CurrentServer i server') xs) = []"
  by (induction xs) auto

lemma announce_events:
  "NoToolError \<notin> set (announce h test_current current_dns)"
  "InstallHint \<notin> set (announce h test_current current_dns)"
  "NoServers \<notin> set (announce h test_current current_dns)"
  "benchmark_calls (announce h test_current current_dns) = []"
  by (auto simp: announce_def benchmark_calls_append benchmark_calls_current)

lemma run_benchmark_tools:
  assumes "check_command h ''dig'' \<or> check_command h ''nslookup''"
  shows "\<exists>out results.
      run_benchmark h test_current test_public custom_servers top3_only
        = Inr (Banner # out, results)
    \<and> NoToolError \<notin> set out \<and> InstallHint \<notin> set out
    \<and> benchmark_calls out
        = take (length (benchmark_calls out))
            (ordered_server_list (get_current_dns_servers (resolvers h)) test_current
               test_public (case custom_servers of None \<Rightarrow> [] | Some servers \<Rightarrow> servers)
               top3_only)
    \<and> ((\<forall>(nm, server') \<in> set (ordered_server_list (get_current_dns_servers (resolvers h))
              test_current test_public
              (case custom_servers of None \<Rightarrow> [] | Some servers \<Rightarrow> servers) top3_only).
           attempts h server' nm \<noteq> KeyboardInterrupt)
        \<longrightarrow> benchmark_calls out
          = ordered_server_list (get_current_dns_servers (resolvers h)) test_current
              test_public (case custom_servers of None \<Rightarrow> [] | Some servers \<Rightarrow> servers)
              top3_only)
    \<and> (ordered_server_list (get_current_dns_servers (resolvers h)) test_current
          test_public (case custom_servers of None \<Rightarrow> [] | Some servers \<Rightarrow> servers)
          top3_only = []
        \<longrightarrow> last out = NoServers \<and> results = [])
    \<and> (ordered_server_list (get_current_dns_servers (resolvers h)) test_current
          test_public (case custom_servers of None \<Rightarrow> [] | Some servers \<Rightarrow> servers)
          top3_only \<noteq> []
        \<longrightarrow> NoServers \<notin> set out)"
proof -
  let ?custom = "case custom_servers of None \<Rightarrow> [] | Some servers \<Rightarrow> servers"
  let ?L = "ordered_server_list (get_current_dns_servers (resolvers h)) test_current
      test_public ?custom top3_only"
  let ?head = "announce h test_current
        (if test_current then get_current_dns_servers (resolvers h) else [])
      @ map InvalidAddress [a \<leftarrow> ?custom. validate_ip_address a \<noteq> Inr True]"
  have tools: "(\<not> check_command h ''dig'' \<and> \<not> check_command h ''nslookup'') = False"
    using assms by blast
  have head: "NoToolError \<notin> set ?head" "InstallHint \<notin> set ?head" "NoServers \<notin> set ?head"
    "benchmark_calls ?head = []"
    by (auto simp: announce_events benchmark_calls_append benchmark_calls_warnings)
  show ?thesis
  proof (cases "?L = []")
    case True
    have "run_benchmark h test_current test_public custom_servers top3_only
        = Inr (Banner # ?head @ [NoServers], [])"
      using True
      by (simp add: run_benchmark_def tools servers_to_test_eq ordered_server_list_current Let_def)
    then show ?thesis
      using True head
      by (intro exI [of _ "?head @ [NoServers]"] exI [of _ "[]"])
        (simp add: benchmark_calls_append)
  next
    case False
    let ?out3 = "Banner # ?head @ [Testing (length ?L) (length test_domains)]
        @ (if \<not> verbose h then [ProgressLabel] else [])"
    obtain evs where e: "fst (bench_loop h ?L (?out3, [])) = ?out3 @ evs"
      "NoToolError \<notin> set evs" "InstallHint \<notin> set evs" "NoServers \<notin> set evs"
      "benchmark_calls evs = take (length (benchmark_calls evs)) ?L"
      "(\<forall>(nm, server') \<in> set ?L. attempts h server' nm \<noteq> KeyboardInterrupt)
          \<longrightarrow> benchmark_calls evs = ?L"
      using bench_loop_trace [of h ?L "(?out3, [])"] by auto
    have "run_benchmark h test_current test_public custom_servers top3_only
        = Inr (?out3 @ evs @ (if \<not> verbose h then [DoneLine] else []),
               snd (bench_loop h ?L (?out3, [])))"
      using False e(1)
      by (simp add: run_benchmark_def tools servers_to_test_eq ordered_server_list_current Let_def)
    then show ?thesis
      using False head e(2-6)
      by (intro exI [of _ "?head @ [Testing (length ?L) (length test_domains)]
            @ (if \<not> verbose h then [ProgressLabel] else []) @ evs
            @ (if \<not> verbose h then [DoneLine] else [])"]
          exI [of _ "snd (bench_loop h ?L (?out3, []))"])
        (simp add: benchmark_calls_append)
  qed
qed

text \<open>
  Claim C6. For every combination of options, the block that prepares the server list
  raises nothing, prints one warning for each custom server that the validator rejects,
  and leaves in \<^verbatim>\<open>servers_to_test\<close> the list of the specification: the current servers
  (when they are tested), the valid custom servers, then the three curated or the ten
  public servers (when the public servers are tested), in this order. On a host with a
  lookup command \<^verbatim>\<open>run_benchmark\<close> returns, and it calls \<^verbatim>\<open>benchmark_server\<close> on the
  servers of this list built from the discovered servers, in order: on all of them when
  no call is interrupted, and on an initial part of the list otherwise.
\<close>

theorem server_list_order:
  "servers_to_test current_dns test_current test_public custom_servers top3_only
     = (None,
        map InvalidAddress
          [a \<leftarrow> (case custom_servers of None \<Rightarrow> [] | Some servers \<Rightarrow> servers).
             validate_ip_address a \<noteq> Inr True],
        ordered_server_list current_dns test_current test_public
          (case custom_servers of None \<Rightarrow> [] | Some servers \<Rightarrow> servers) top3_only)
   \<and> length top3_dns_servers = 3 \<and> length public_dns_servers = 10
   \<and> (check_command h ''dig'' \<or> check_command h ''nslookup'' \<longrightarrow>
        (\<exists>out results.
           run_benchmark h test_current test_public custom_servers top3_only = Inr (out, results)
         \<and> benchmark_calls out
             = take (length (benchmark_calls out))
                 (ordered_server_list (get_current_dns_servers (resolvers h)) test_current
                    test_public (case custom_servers of None \<Rightarrow> [] | Some servers \<Rightarrow> servers)
                    top3_only)
         \<and> ((\<forall>(nm, server') \<in> set (ordered_server_list (get_current_dns_servers (resolvers h))
                   test_current test_public
                   (case custom_servers of None \<Rightarrow> [] | Some servers \<Rightarrow> servers) top3_only).
                attempts h server' nm \<noteq> KeyboardInterrupt)
             \<longrightarrow> benchmark_calls out
               = ordered_server_list (get_current_dns_servers (resolvers h)) test_current
                   test_public (case custom_servers of None \<Rightarrow> [] | Some servers \<Rightarrow> servers)
                   top3_only)))"
proof (intro conjI impI)
  show "servers_to_test current_dns test_current test_public custom_servers top3_only
     = (None,
        map InvalidAddress
          [a \<leftarrow> (case custom_servers of None \<Rightarrow> [] | Some servers \<Rightarrow> servers).
             validate_ip_address a \<noteq> Inr True],
        ordered_server_list current_dns test_current test_public
          (case custom_servers of None \<Rightarrow> [] | Some servers \<Rightarrow> servers) top3_only)"
    by (rule servers_to_test_eq)
  show "length top3_dns_servers = 3"
    by (simp add: top3_dns_servers_def)
  show "length public_dns_servers = 10"
    by (simp add: public_dns_servers_def)
next
  let ?L = "ordered_server_list (get_current_dns_servers (resolvers h)) test_current
      test_public (case custom_servers of None \<Rightarrow> [] | Some servers \<Rightarrow> servers) top3_only"
  assume "check_command h ''dig'' \<or> check_command h ''nslookup''"
  then obtain out results where r:
    "run_benchmark h test_current test_public custom_servers top3_only
       = Inr (Banner # out, results)"
    "benchmark_calls out = take (length (benchmark_calls out)) ?L"
    "(\<forall>(nm, server') \<in> set ?L. attempts h server' nm \<noteq> KeyboardInterrupt)
       \<longrightarrow> benchmark_calls out = ?L"
    using run_benchmark_tools [of h test_current test_public custom_servers top3_only]
    by blast
  show "\<exists>out results.
      run_benchmark h test_current test_public custom_servers top3_only = Inr (out, results)
    \<and> benchmark_calls out = take (length (benchmark_calls out)) ?L
    \<and> ((\<forall>(nm, server') \<in> set ?L. attempts h server' nm \<noteq> KeyboardInterrupt)
        \<longrightarrow> benchmark_calls out = ?L)"
    using r by (intro exI [of _ "Banner # out"] exI [of _ results]) simp
qed

lemma validate_examples:
  "validate_ip_address ''1.1.1.1'' = Inr True" "validate_ip_address ''9.9.9.9'' = Inr True"
  "validate_ip_address ''8.8.8.256'' = Inr False"
proof -
  show "validate_ip_address ''1.1.1.1'' = Inr True" "validate_ip_address ''9.9.9.9'' = Inr True"
    using accepted_examples(1) accepted_more(2) by (simp_all add: accepted_def)
  have "\<not> ipv4_ok ''8.8.8.256''"
    by (simp add: ipv4_ok_def split_on_def octet_group_def decimal_examples)
  moreover have "\<not> matches ipv6_pattern ''8.8.8.256''"
    using colon_in_ipv6 [of "''8.8.8.256''"] by auto
  ultimately show "validate_ip_address ''8.8.8.256'' = Inr False"
    by (simp add: validate_ip_address_eq chomp_examples)
qed

lemma lab_host_current: "get_current_dns_servers (resolvers lab_host) = [''1.1.1.1'']"
proof -
  have t: "discovered_tokens spec_example = [''1.1.1.1'', ''1.1.1.1'', ''127.0.0.53'']"
    by (simp add: discovered_tokens_def spec_example_def resolv_conf_tokens_examples
        command_tokens_def)
  have "get_current_dns_servers spec_example = [''1.1.1.1'']"
    unfolding get_current_dns_servers_eq t
    by (simp add: accepted_examples first_occurrences_def insert_new_def)
  then show ?thesis
    by (simp add: lab_host_def)
qed

lemma lab_host_dig: "check_command lab_host ''dig''"
  by (simp add: check_command_def lab_host_def)

theorem server_list_order_witness:
  "servers_to_test [''1.1.1.1''] True True (Some [''9.9.9.9'', ''8.8.8.256'']) True
     = (None, [InvalidAddress ''8.8.8.256''],
        [(''Current-1.1.1.1'', ''1.1.1.1''), (''Custom-9.9.9.9'', ''9.9.9.9''),
         (''Cloudflare'', ''1.1.1.1''), (''Google'', ''8.8.8.8''), (''Quad9'', ''9.9.9.9'')])
   \<and> (\<exists>out results.
        run_benchmark lab_host True True (Some [''9.9.9.9'', ''8.8.8.256'']) True
          = Inr (out, results)
      \<and> benchmark_calls out
          = [(''Current-1.1.1.1'', ''1.1.1.1''), (''Custom-9.9.9.9'', ''9.9.9.9''),
             (''Cloudflare'', ''1.1.1.1''), (''Google'', ''8.8.8.8''), (''Quad9'', ''9.9.9.9'')])"
proof -
  have l: "ordered_server_list [''1.1.1.1''] True True [''9.9.9.9'', ''8.8.8.256''] True
      = [(''Current-1.1.1.1'', ''1.1.1.1''), (''Custom-9.9.9.9'', ''9.9.9.9''),
         (''Cloudflare'', ''1.1.1.1''), (''Google'', ''8.8.8.8''), (''Quad9'', ''9.9.9.9'')]"
    by (simp add: ordered_server_list_def validate_examples top3_dns_servers_def)
  have uninterrupted: "\<forall>(nm, server') \<in> set [(''Current-1.1.1.1'', ''1.1.1.1''),
        (''Custom-9.9.9.9'', ''9.9.9.9''), (''Cloudflare'', ''1.1.1.1''),
        (''Google'', ''8.8.8.8''), (''Quad9'', ''9.9.9.9'')].
      attempts lab_host server' nm \<noteq> KeyboardInterrupt"
    by (simp add: lab_host_def)
  show ?thesis
    using server_list_order [of "[''1.1.1.1'']" True True "Some [''9.9.9.9'', ''8.8.8.256'']"
        True lab_host] lab_host_dig uninterrupted
    unfolding lab_host_current
    by (simp add: l validate_examples) blast
qed




end
